theory Spec2Isabelle
  imports Main "HOL-Library.Multiset"
begin

section \<open>Data model\<close>

text \<open>
  An element of the drawing. The relay and the client read \<open>id\<close>, \<open>isDeleted\<close>
  and \<open>version\<close>; the command line also writes \<open>versionNonce\<close> and \<open>updated\<close>.
  Every other property (geometry, colours, ...) is kept in \<open>props\<close>, name by name,
  as opaque JSON text. A property the object does not have is \<open>None\<close>.
  A version is an integer that a JavaScript number holds exactly.
\<close>

record element =
  id_el :: string
  isDeleted :: bool
  version :: "int option"
  versionNonce :: "int option"
  updated :: "int option"
  props :: "(string \<times> string) list"

text \<open>
  The canvas document \<open>{type, version, elements, appState, files}\<close>; \<open>elements\<close>
  is \<open>None\<close> when the object has no such property.
\<close>

record document =
  type_doc :: string
  version_doc :: int
  elements :: "element list option"
  appState :: "(string \<times> string) list"
  files :: "(string \<times> string) list"

text \<open>
  What \<open>JSON.parse\<close> makes of a canvas text, or what a message carries as \<open>data\<close>:
  a document object, \<open>null\<close>, or any other JSON value (a boolean, a number, a string,
  an array, or an object without the property \<open>elements\<close>), kept as its text. The
  relay never looks inside.
\<close>

datatype canvas_json = Doc document | Null | OtherJson string

text \<open>
  The messages of the push channel, after \<open>JSON.parse\<close>:
  \<open>{type: "scene-update", data}\<close>, \<open>{type: "export-request"}\<close>, and any other object.
  A text that does not parse is \<open>None :: message option\<close>.
\<close>

datatype message = SceneUpdate canvas_json | ExportRequest | OtherMessage string

type_synonym bytes = "nat list"

section \<open>Fingerprint (src/App.jsx, sceneFingerprint)\<close>

text \<open>
  JavaScript numbers are IEEE 754 doubles. A sum of two integers is the exact sum rounded
  to 53 significant bits, ties to the even neighbour; \<open>js_round\<close> is that rounding on
  integers, and \<open>bitlen_nat\<close> the number of bits of the magnitude.
\<close>

fun bitlen_nat :: "nat \<Rightarrow> nat" where
  "bitlen_nat n = (if n = 0 then 0 else Suc (bitlen_nat (n div 2)))"

declare bitlen_nat.simps [simp del]

definition js_round :: "int \<Rightarrow> int" where
  "js_round n =
     (let m = nat \<bar>n\<bar> in
      if m < 2 ^ 53 then n
      else
        let e = bitlen_nat m - 53;
            q = m div 2 ^ e;
            r = m mod 2 ^ e;
            h = 2 ^ (e - 1);
            q' = (if h < r \<or> (r = h \<and> odd q) then q + 1 else q)
        in sgn n * int (q' * 2 ^ e))"

text \<open>
  The values a sum of integer versions can take: an integer, or, once the rounded
  magnitude reaches \<open>2 ^ 1024\<close>, an infinity; the two infinities add up to NaN.
\<close>

datatype jsnum = Fin int | PlusInfinity | MinusInfinity | NaN

fun js_add :: "jsnum \<Rightarrow> jsnum \<Rightarrow> jsnum" where
  "js_add (Fin a) (Fin b) =
     (let r = js_round (a + b) in
      if 2 ^ 1024 \<le> r then PlusInfinity
      else if r \<le> - (2 ^ 1024) then MinusInfinity
      else Fin r)"
| "js_add NaN y = NaN"
| "js_add x NaN = NaN"
| "js_add PlusInfinity MinusInfinity = NaN"
| "js_add MinusInfinity PlusInfinity = NaN"
| "js_add PlusInfinity y = PlusInfinity"
| "js_add MinusInfinity y = MinusInfinity"
| "js_add (Fin a) PlusInfinity = PlusInfinity"
| "js_add (Fin a) MinusInfinity = MinusInfinity"

text \<open>
  Decimal rendering of a number inside a template literal. For an integer this is every
  digit while the magnitude is at most \<open>2 ^ 54\<close>. Beyond that JavaScript prints the
  shortest digits that read back as the same number (with an exponent from \<open>10 ^ 21\<close>
  on); this rendering does not follow it there, and agrees with it only in that
  different numbers get different texts. Where a statement below names a text, the sum
  is within \<open>2 ^ 54\<close>.
\<close>

fun digits :: "nat \<Rightarrow> string" where
  "digits n = (if n < 10 then [char_of (48 + n)]
               else digits (n div 10) @ [char_of (48 + n mod 10)])"

declare digits.simps [simp del]

definition show_int :: "int \<Rightarrow> string" where
  "show_int i = (if i < 0 then CHR ''-'' # digits (nat (- i)) else digits (nat i))"

fun show_num :: "jsnum \<Rightarrow> string" where
  "show_num (Fin i) = show_int i"
| "show_num PlusInfinity = ''Infinity''"
| "show_num MinusInfinity = ''-Infinity''"
| "show_num NaN = ''NaN''"

text \<open>The template literal \<open>`${count}:${vSum}`\<close>.\<close>

definition fp_string :: "nat \<times> jsnum \<Rightarrow> string" where
  "fp_string p = digits (fst p) @ CHR '':'' # show_num (snd p)"

text \<open>\<open>el.version || 0\<close>: a missing version and the version 0 both give 0.\<close>

definition version_or0 :: "element \<Rightarrow> int" where
  "version_or0 el = (case version el of None \<Rightarrow> 0 | Some v \<Rightarrow> (if v = 0 then 0 else v))"

text \<open>
  The \<open>for (const el of elements)\<close> loop with its two accumulators
  (\<open>cnt\<close> is the source's \<open>count\<close>).
\<close>

fun fp_loop :: "element list \<Rightarrow> nat \<Rightarrow> jsnum \<Rightarrow> nat \<times> jsnum" where
  "fp_loop [] cnt vSum = (cnt, vSum)"
| "fp_loop (el # els) cnt vSum =
     (if \<not> isDeleted el then fp_loop els (cnt + 1) (js_add vSum (Fin (version_or0 el)))
      else fp_loop els cnt vSum)"

text \<open>
  \<open>sceneFingerprint(elements)\<close>: \<open>None\<close> is a falsy argument (undefined or null),
  which like the empty array returns the literal \<open>"0:0"\<close>.
\<close>

definition sceneFingerprint :: "element list option \<Rightarrow> string" where
  "sceneFingerprint elems =
     (case elems of
        None \<Rightarrow> ''0:0''
      | Some els \<Rightarrow> if els = [] then ''0:0'' else fp_string (fp_loop els 0 (Fin 0)))"

text \<open>The fingerprint as the specification words it, and what it may look at.\<close>

definition activeCount :: "element list \<Rightarrow> nat" where
  "activeCount E = length (filter (\<lambda>e. \<not> isDeleted e) E)"

definition versionSum :: "element list \<Rightarrow> int" where
  "versionSum E =
     sum_list (map (\<lambda>e. case version e of None \<Rightarrow> 0 | Some v \<Rightarrow> v) (filter (\<lambda>e. \<not> isDeleted e) E))"

definition fp_view :: "element \<Rightarrow> bool \<times> int option" where
  "fp_view e = (isDeleted e, version e)"

text \<open>
  The sum of the magnitudes of the versions that count. While it stays below \<open>2 ^ 53\<close>
  every partial sum of the loop, in any order, is an integer that a number holds exactly.
\<close>

definition abs_sum :: "element list \<Rightarrow> int" where
  "abs_sum E =
     sum_list (map (\<lambda>e. case version e of None \<Rightarrow> 0 | Some v \<Rightarrow> \<bar>v\<bar>) (filter (\<lambda>e. \<not> isDeleted e) E))"

section \<open>The interactive client (src/App.jsx)\<close>

text \<open>
  The state the two callbacks share: whether \<open>excalidrawAPI\<close> is set, whether
  \<open>wsRef.current\<close> is a socket in state OPEN, the ref \<open>lastRemoteFingerprint\<close>
  (initially \<open>"0:0"\<close>), the scene installed by \<open>updateScene\<close>, the number of export
  requests handed to \<open>handleExportRequest\<close>, and what \<open>ws.send\<close> has sent.
\<close>

record client =
  excalidrawAPI :: bool
  ws_open :: bool
  lastRemoteFingerprint :: string
  scene :: "element list"
  exports_handled :: nat
  sent :: "message list"

definition client_init :: client where
  "client_init = \<lparr>excalidrawAPI = False, ws_open = False, lastRemoteFingerprint = ''0:0'',
     scene = [], exports_handled = 0, sent = []\<rparr>"

text \<open>
  \<open>msg.data.elements || []\<close>: reading a property of \<open>null\<close> throws (\<open>None\<close>); a value
  that is not a document has no such property.
\<close>

definition incoming_elements :: "canvas_json \<Rightarrow> element list option" where
  "incoming_elements v =
     (case v of
        Null \<Rightarrow> None
      | OtherJson raw \<Rightarrow> Some []
      | Doc d \<Rightarrow> Some (case elements d of None \<Rightarrow> [] | Some es \<Rightarrow> es))"

text \<open>
  \<open>ws.onmessage\<close>; a text that does not parse and a thrown \<open>TypeError\<close> are caught
  and logged.
\<close>

definition onmessage :: "message option \<Rightarrow> client \<Rightarrow> client" where
  "onmessage ev c =
     (case ev of
        None \<Rightarrow> c
      | Some (SceneUpdate v) \<Rightarrow>
          if excalidrawAPI c then
            (case incoming_elements v of
               None \<Rightarrow> c
             | Some incoming \<Rightarrow>
                 (let fp = sceneFingerprint (Some incoming)
                  in c\<lparr>lastRemoteFingerprint := fp, scene := incoming\<rparr>))
          else c
      | Some ExportRequest \<Rightarrow>
          if excalidrawAPI c then c\<lparr>exports_handled := exports_handled c + 1\<rparr> else c
      | Some (OtherMessage t) \<Rightarrow> c)"

text \<open>\<open>appState.viewBackgroundColor || "#ffffff"\<close> and \<open>files || {}\<close>.\<close>

definition viewBackgroundColor_or :: "(string \<times> string) list \<Rightarrow> string" where
  "viewBackgroundColor_or st =
     (case map_of st ''viewBackgroundColor'' of
        None \<Rightarrow> ''#ffffff''
      | Some col \<Rightarrow> if col = [] then ''#ffffff'' else col)"

definition files_or :: "(string \<times> string) list option \<Rightarrow> (string \<times> string) list" where
  "files_or fs = (case fs of None \<Rightarrow> [] | Some f \<Rightarrow> f)"

text \<open>
  The function that \<open>sendUpdate\<close> debounces: what runs, 300 ms after the last
  \<open>onChange\<close>, on the elements of that last change.
\<close>

definition sendUpdate ::
  "element list \<Rightarrow> (string \<times> string) list \<Rightarrow> (string \<times> string) list option \<Rightarrow> client \<Rightarrow> client" where
  "sendUpdate elems st fs c =
     (if \<not> ws_open c then c
      else
        let fp = sceneFingerprint (Some elems) in
        if fp = lastRemoteFingerprint c then c
        else c\<lparr>sent := sent c @
               [SceneUpdate (Doc \<lparr>type_doc = ''excalidraw'', version_doc = 2, elements = Some elems,
                  appState = [(''viewBackgroundColor'', viewBackgroundColor_or st)],
                  files = files_or fs\<rparr>)]\<rparr>)"

text \<open>
  A version bump of one element, as every writer of this repository does it
  (\<open>version: (el.version || 0) + 1\<close>).
\<close>

definition bump_version :: "element \<Rightarrow> element" where
  "bump_version el = el\<lparr>version := Some (js_round (version_or0 el + 1))\<rparr>"

section \<open>The relay server\<close>

text \<open>
  The backing file, by what \<open>readFileSync\<close> and \<open>JSON.parse\<close> make of it: absent,
  a text that does not parse, or the text of a JSON value.
\<close>

datatype file_state = Absent | Unparseable string | Holds canvas_json

definition DEFAULT_CANVAS :: document where
  "DEFAULT_CANVAS = \<lparr>type_doc = ''excalidraw'', version_doc = 2, elements = Some [],
     appState = [(''viewBackgroundColor'', ''#ffffff'')], files = []\<rparr>"

definition DEBOUNCE_MS :: int where
  "DEBOUNCE_MS = 300"

text \<open>A socket of \<open>wss.clients\<close>: its identity and its \<open>readyState\<close> (1 is OPEN).\<close>

record ws_client =
  ws_id :: nat
  readyState :: nat

text \<open>
  The module's variables: the file \<open>CANVAS_FILE\<close>, \<open>lastWriteFromClient\<close>, \<open>pendingExportResolve\<close>
  (the closure is named by the request whose \<open>res\<close> and \<open>timeout\<close> it holds; \<open>None\<close>
  is null), the armed 10-second timers by request, and \<open>wss.clients\<close> in insertion order.
\<close>

record server =
  canvas_file :: file_state
  lastWriteFromClient :: int
  pendingExportResolve :: "nat option"
  timers :: "nat set"
  clients :: "ws_client list"

text \<open>What a request sees as its answer, and what a handler does to the outside.\<close>

datatype reply =
    OkJson
  | HealthJson
  | CanvasJson canvas_json
  | Conflict409
  | Timeout504
  | Png bytes
  | BadRequest400

datatype effect =
    FileWrite canvas_json
  | WsSend nat message
  | HttpReply nat reply

text \<open>Start of the module: the file is created when it does not exist.\<close>

definition startup :: "file_state \<Rightarrow> server \<times> effect list" where
  "startup f =
     (case f of
        Absent \<Rightarrow>
          (\<lparr>canvas_file = Holds (Doc DEFAULT_CANVAS), lastWriteFromClient = 0,
            pendingExportResolve = None, timers = {}, clients = []\<rparr>,
           [FileWrite (Doc DEFAULT_CANVAS)])
      | _ \<Rightarrow>
          (\<lparr>canvas_file = f, lastWriteFromClient = 0, pendingExportResolve = None,
            timers = {}, clients = []\<rparr>, []))"

text \<open>
  \<open>readCanvas()\<close>: what the file parses to, as it is; whatever the \<open>try\<close> block
  throws, the default is returned.
\<close>

definition readCanvas :: "file_state \<Rightarrow> canvas_json" where
  "readCanvas f =
     (case f of
        Holds v \<Rightarrow> v
      | Unparseable raw \<Rightarrow> Doc DEFAULT_CANVAS
      | Absent \<Rightarrow> Doc DEFAULT_CANVAS)"

text \<open>\<open>writeCanvas(data)\<close>, at clock reading \<open>now\<close>.\<close>

definition writeCanvas :: "int \<Rightarrow> canvas_json \<Rightarrow> server \<Rightarrow> server \<times> effect list" where
  "writeCanvas now data s = (s\<lparr>lastWriteFromClient := now, canvas_file := Holds data\<rparr>, [FileWrite data])"

text \<open>\<open>broadcast(message, excludeSocket)\<close>: the loop over \<open>wss.clients\<close>; \<open>None\<close> is null.\<close>

fun broadcast :: "message \<Rightarrow> nat option \<Rightarrow> ws_client list \<Rightarrow> effect list" where
  "broadcast message excludeSocket [] = []"
| "broadcast message excludeSocket (client # rest) =
     (if Some (ws_id client) \<noteq> excludeSocket \<and> readyState client = 1
      then WsSend (ws_id client) message # broadcast message excludeSocket rest
      else broadcast message excludeSocket rest)"

text \<open>\<open>GET /api/health\<close> and \<open>GET /api/canvas\<close>.\<close>

definition get_health :: "nat \<Rightarrow> server \<Rightarrow> server \<times> effect list" where
  "get_health req s = (s, [HttpReply req HealthJson])"

definition get_canvas :: "nat \<Rightarrow> server \<Rightarrow> server \<times> effect list" where
  "get_canvas req s = (s, [HttpReply req (CanvasJson (readCanvas (canvas_file s)))])"

text \<open>\<open>PUT /api/canvas\<close>.\<close>

definition put_canvas :: "nat \<Rightarrow> canvas_json \<Rightarrow> int \<Rightarrow> server \<Rightarrow> server \<times> effect list" where
  "put_canvas req body now s =
     (let (s1, w) = writeCanvas now body s
      in (s1, w @ broadcast (SceneUpdate body) None (clients s1) @ [HttpReply req OkJson]))"

text \<open>\<open>GET /api/export-png\<close>: the request \<open>req\<close> waits for its answer.\<close>

definition get_export :: "nat \<Rightarrow> server \<Rightarrow> server \<times> effect list" where
  "get_export req s =
     (case pendingExportResolve s of
        Some r \<Rightarrow> (s, [HttpReply req Conflict409])
      | None \<Rightarrow>
          (s\<lparr>timers := insert req (timers s), pendingExportResolve := Some req\<rparr>,
           broadcast ExportRequest None (clients s)))"

text \<open>
  The callback of the timer armed by request \<open>req\<close>. A cleared timer never runs;
  a timer that runs is spent.
\<close>

definition timer_fire :: "nat \<Rightarrow> server \<Rightarrow> server \<times> effect list" where
  "timer_fire req s =
     (if req \<notin> timers s then (s, [])
      else
        let s1 = s\<lparr>timers := timers s - {req}\<rparr> in
        (case pendingExportResolve s1 of
           Some r \<Rightarrow> (s1\<lparr>pendingExportResolve := None\<rparr>, [HttpReply req Timeout504])
         | None \<Rightarrow> (s1, [])))"

text \<open>
  \<open>POST /api/export-png\<close>: the closure of request \<open>r\<close> clears \<open>r\<close>'s timer, resets the
  slot and sends the image on \<open>r\<close>'s response; then the poster is answered.
\<close>

definition post_export :: "nat \<Rightarrow> bytes \<Rightarrow> server \<Rightarrow> server \<times> effect list" where
  "post_export req body s =
     (case pendingExportResolve s of
        Some r \<Rightarrow>
          (s\<lparr>timers := timers s - {r}, pendingExportResolve := None\<rparr>,
           [HttpReply r (Png body), HttpReply req OkJson])
      | None \<Rightarrow> (s, [HttpReply req BadRequest400]))"

text \<open>
  \<open>wss.on("connection")\<close>: the socket, already a member of \<open>wss.clients\<close> and OPEN,
  is sent the canvas.
\<close>

definition on_connection :: "nat \<Rightarrow> server \<Rightarrow> server \<times> effect list" where
  "on_connection ws s =
     (let s1 = s\<lparr>clients := clients s @ [\<lparr>ws_id = ws, readyState = 1\<rparr>]\<rparr>;
          canvas = readCanvas (canvas_file s1)
      in (s1, [WsSend ws (SceneUpdate canvas)]))"

text \<open>\<open>ws.on("message")\<close> of socket \<open>ws\<close>; a text that does not parse is caught.\<close>

definition on_message :: "nat \<Rightarrow> message option \<Rightarrow> int \<Rightarrow> server \<Rightarrow> server \<times> effect list" where
  "on_message ws raw now s =
     (case raw of
        None \<Rightarrow> (s, [])
      | Some (SceneUpdate data) \<Rightarrow>
          (let (s1, w) = writeCanvas now data s
           in (s1, w @ broadcast (SceneUpdate data) (Some ws) (clients s1)))
      | Some ExportRequest \<Rightarrow> (s, [])
      | Some (OtherMessage t) \<Rightarrow> (s, []))"

text \<open>The socket library: a closed socket leaves \<open>wss.clients\<close>; a socket changes state.\<close>

definition on_close :: "nat \<Rightarrow> server \<Rightarrow> server \<times> effect list" where
  "on_close ws s = (s\<lparr>clients := filter (\<lambda>c. ws_id c \<noteq> ws) (clients s)\<rparr>, [])"

definition set_readyState :: "nat \<Rightarrow> nat \<Rightarrow> server \<Rightarrow> server \<times> effect list" where
  "set_readyState ws st s =
     (s\<lparr>clients := map (\<lambda>c. if ws_id c = ws then c\<lparr>readyState := st\<rparr> else c) (clients s)\<rparr>, [])"

text \<open>\<open>watcher.on("change")\<close>, at clock reading \<open>now\<close>.\<close>

definition watcher_change :: "int \<Rightarrow> server \<Rightarrow> server \<times> effect list" where
  "watcher_change now s =
     (if now - lastWriteFromClient s < DEBOUNCE_MS + 200 then (s, [])
      else
        let canvas = readCanvas (canvas_file s)
        in (s, broadcast (SceneUpdate canvas) None (clients s)))"

text \<open>Another process changes the file; the relay hears of it through the watcher only.\<close>

definition external_write :: "file_state \<Rightarrow> server \<Rightarrow> server \<times> effect list" where
  "external_write f s = (s\<lparr>canvas_file := f\<rparr>, [])"

text \<open>The events the relay handles, each to completion, and a run of them.\<close>

datatype event =
    Connect nat
  | Close nat
  | ReadyState nat nat
  | Message nat "message option" int
  | GetHealth nat
  | GetCanvas nat
  | PutCanvas nat canvas_json int
  | GetExport nat
  | PostExport nat bytes
  | TimerFire nat
  | FileChange int
  | ExternalWrite file_state

fun step :: "event \<Rightarrow> server \<Rightarrow> server \<times> effect list" where
  "step (Connect ws) s = on_connection ws s"
| "step (Close ws) s = on_close ws s"
| "step (ReadyState ws st) s = set_readyState ws st s"
| "step (Message ws raw now) s = on_message ws raw now s"
| "step (GetHealth req) s = get_health req s"
| "step (GetCanvas req) s = get_canvas req s"
| "step (PutCanvas req body now) s = put_canvas req body now s"
| "step (GetExport req) s = get_export req s"
| "step (PostExport req body) s = post_export req body s"
| "step (TimerFire req) s = timer_fire req s"
| "step (FileChange now) s = watcher_change now s"
| "step (ExternalWrite f) s = external_write f s"

fun run :: "event list \<Rightarrow> server \<Rightarrow> server \<times> effect list" where
  "run [] s = (s, [])"
| "run (e # es) s =
     (let (s1, out1) = step e s; (s2, out2) = run es s1 in (s2, out1 @ out2))"

text \<open>The HTTP request an event brings with it, if any.\<close>

definition event_req :: "event \<Rightarrow> nat option" where
  "event_req e =
     (case e of
        GetHealth r \<Rightarrow> Some r
      | GetCanvas r \<Rightarrow> Some r
      | PutCanvas r d t \<Rightarrow> Some r
      | GetExport r \<Rightarrow> Some r
      | PostExport r b \<Rightarrow> Some r
      | _ \<Rightarrow> None)"

text \<open>
  The export slot and its timer go together: no timer is armed while the slot is
  empty, and exactly the waiting request's timer is armed otherwise.
\<close>

definition slot_inv :: "server \<Rightarrow> bool" where
  "slot_inv s = (timers s = (case pendingExportResolve s of None \<Rightarrow> {} | Some r \<Rightarrow> {r}))"

text \<open>The answers a run gives to request \<open>req\<close>.\<close>

definition replies_to :: "nat \<Rightarrow> effect list \<Rightarrow> reply list" where
  "replies_to req out = concat (map (\<lambda>e. case e of HttpReply r a \<Rightarrow> if r = req then [a] else [] | _ \<Rightarrow> []) out)"

text \<open>The messages a run sends to socket \<open>ws\<close>.\<close>

definition sends_to :: "nat \<Rightarrow> effect list \<Rightarrow> message list" where
  "sends_to ws out = concat (map (\<lambda>e. case e of WsSend w m \<Rightarrow> if w = ws then [m] else [] | _ \<Rightarrow> []) out)"

section \<open>The command line (src/cli/index.js): update and delete\<close>

text \<open>
  What a command ends with: an error message and \<open>process.exit(1)\<close> before any write,
  or one \<open>writeCanvas\<close> of a document and a line on standard output.
\<close>

datatype cli_result = Failed string | Wrote document string

text \<open>
  The parsed \<open>updates\<close> object of \<open>update\<close>: the properties it may set. Its own
  \<open>version\<close>, \<open>versionNonce\<close> and \<open>updated\<close> are overwritten by the command.
\<close>

record patch =
  p_id :: "string option"
  p_isDeleted :: "bool option"
  p_props :: "(string \<times> string) list"

fun set_prop :: "string \<Rightarrow> string \<Rightarrow> (string \<times> string) list \<Rightarrow> (string \<times> string) list" where
  "set_prop k v [] = [(k, v)]"
| "set_prop k v ((k', v') # ps) = (if k = k' then (k, v) # ps else (k', v') # set_prop k v ps)"

definition spread :: "(string \<times> string) list \<Rightarrow> (string \<times> string) list \<Rightarrow> (string \<times> string) list" where
  "spread old new = foldl (\<lambda>acc kv. set_prop (fst kv) (snd kv) acc) old new"

text \<open>\<open>Array.prototype.findIndex\<close>; \<open>None\<close> is -1.\<close>

fun findIndex :: "('a \<Rightarrow> bool) \<Rightarrow> 'a list \<Rightarrow> nat option" where
  "findIndex P [] = None"
| "findIndex P (x # xs) =
     (if P x then Some 0 else (case findIndex P xs of None \<Rightarrow> None | Some i \<Rightarrow> Some (i + 1)))"

text \<open>
  The object literal of \<open>update\<close>: \<open>{...el, ...updates, version, versionNonce, updated}\<close>,
  with \<open>rnd\<close> the value of \<open>Math.floor(Math.random() * 2_000_000_000)\<close> and \<open>now\<close> the clock.
\<close>

definition apply_updates :: "element \<Rightarrow> patch \<Rightarrow> int \<Rightarrow> int \<Rightarrow> element" where
  "apply_updates el updates rnd now =
     \<lparr>id_el = (case p_id updates of None \<Rightarrow> id_el el | Some i \<Rightarrow> i),
      isDeleted = (case p_isDeleted updates of None \<Rightarrow> isDeleted el | Some b \<Rightarrow> b),
      version = Some (js_round (version_or0 el + 1)),
      versionNonce = Some rnd,
      updated = Some now,
      props = spread (props el) (p_props updates)\<rparr>"

text \<open>
  \<open>case "update"\<close>: \<open>args\<close> are the positional arguments, \<open>updates\<close> the parsed JSON
  (\<open>None\<close> when \<open>JSON.parse\<close> throws), \<open>canvas\<close> what \<open>readCanvas\<close> returned.
\<close>

definition cmd_update :: "string list \<Rightarrow> patch option \<Rightarrow> document \<Rightarrow> int \<Rightarrow> int \<Rightarrow> cli_result" where
  "cmd_update args updates canvas rnd now =
     (case args of
        [] \<Rightarrow> Failed ''Usage: drawbridge update <id> <json>''
      | i # rest \<Rightarrow>
          if i = [] then Failed ''Usage: drawbridge update <id> <json>''
          else
            (case updates of
               None \<Rightarrow> Failed ''SyntaxError''
             | Some u \<Rightarrow>
                 (case elements canvas of
                    None \<Rightarrow> Failed ''TypeError''
                  | Some els \<Rightarrow>
                      (case findIndex (\<lambda>e. id_el e = i) els of
                         None \<Rightarrow> Failed (''Element '' @ [CHR 0x27] @ i @ [CHR 0x27] @ '' not found'')
                       | Some idx \<Rightarrow>
                           Wrote (canvas\<lparr>elements := Some (els[idx := apply_updates (els ! idx) u rnd now])\<rparr>)
                             (''Updated element '' @ [CHR 0x27] @ i @ [CHR 0x27])))))"

text \<open>The loop of \<open>delete\<close> over \<open>canvas.elements\<close>, with its counter.\<close>

fun delete_loop :: "string set \<Rightarrow> int \<Rightarrow> element list \<Rightarrow> nat \<Rightarrow> element list \<times> nat" where
  "delete_loop idsToDelete now [] cnt = ([], cnt)"
| "delete_loop idsToDelete now (el # els) cnt =
     (if id_el el \<in> idsToDelete then
        (let el' = el\<lparr>isDeleted := True, version := Some (js_round (version_or0 el + 1)),
                       updated := Some now\<rparr>;
             (els', cnt') = delete_loop idsToDelete now els (cnt + 1)
         in (el' # els', cnt'))
      else
        (let (els', cnt') = delete_loop idsToDelete now els cnt in (el # els', cnt')))"

text \<open>\<open>case "delete"\<close>.\<close>

definition cmd_delete :: "string list \<Rightarrow> document \<Rightarrow> int \<Rightarrow> cli_result" where
  "cmd_delete args canvas now =
     (if args = [] then Failed ''Usage: drawbridge delete <id> [id...]''
      else
        (case elements canvas of
           None \<Rightarrow> Failed ''TypeError''
         | Some els \<Rightarrow>
             (let (els', cnt) = delete_loop (set args) now els 0
              in Wrote (canvas\<lparr>elements := Some els'\<rparr>)
                   (''Deleted '' @ digits cnt @ '' element(s)''))))"

section \<open>Sample data\<close>

definition el_a :: element where
  "el_a = \<lparr>id_el = ''a'', isDeleted = False, version = Some 3, versionNonce = None,
     updated = None, props = []\<rparr>"

definition el_b :: element where
  "el_b = \<lparr>id_el = ''b'', isDeleted = True, version = Some 7, versionNonce = None,
     updated = None, props = []\<rparr>"

definition el_c :: element where
  "el_c = \<lparr>id_el = ''c'', isDeleted = False, version = None, versionNonce = None,
     updated = None, props = [(''x'', ''10'')]\<rparr>"

definition doc_abc :: document where
  "doc_abc = \<lparr>type_doc = ''excalidraw'', version_doc = 2, elements = Some [el_a, el_b, el_c],
     appState = [(''viewBackgroundColor'', ''#ffffff'')], files = []\<rparr>"

definition client_live :: client where
  "client_live = client_init\<lparr>excalidrawAPI := True, ws_open := True\<rparr>"

definition three_clients :: "ws_client list" where
  "three_clients = [\<lparr>ws_id = 1, readyState = 1\<rparr>, \<lparr>ws_id = 2, readyState = 3\<rparr>,
     \<lparr>ws_id = 3, readyState = 1\<rparr>]"

definition server_abc :: server where
  "server_abc = \<lparr>canvas_file = Holds (Doc DEFAULT_CANVAS), lastWriteFromClient = 1000,
     pendingExportResolve = None, timers = {}, clients = three_clients\<rparr>"

definition server_waiting :: server where
  "server_waiting = server_abc\<lparr>pendingExportResolve := Some 4, timers := {4}\<rparr>"

definition doc_v1 :: document where
  "doc_v1 = \<lparr>type_doc = ''excalidraw'', version_doc = 1, elements = Some [el_a],
     appState = [], files = []\<rparr>"

definition server_nofile :: server where
  "server_nofile = server_abc\<lparr>canvas_file := Absent\<rparr>"

definition server_doc :: server where
  "server_doc = server_abc\<lparr>canvas_file := Holds (Doc doc_abc)\<rparr>"

definition el_big :: element where
  "el_big = \<lparr>id_el = ''big'', isDeleted = False, version = Some 9007199254740992,
     versionNonce = None, updated = None, props = []\<rparr>"

definition el_one :: element where
  "el_one = \<lparr>id_el = ''one'', isDeleted = False, version = Some 1, versionNonce = None,
     updated = None, props = []\<rparr>"

definition el_uno :: element where
  "el_uno = \<lparr>id_el = ''uno'', isDeleted = False, version = Some 1, versionNonce = None,
     updated = None, props = []\<rparr>"

definition el_half :: element where
  "el_half = \<lparr>id_el = ''half'', isDeleted = False, version = Some 4503599627370496,
     versionNonce = None, updated = None, props = []\<rparr>"

definition el_demi :: element where
  "el_demi = \<lparr>id_el = ''demi'', isDeleted = False, version = Some 4503599627370496,
     versionNonce = None, updated = None, props = []\<rparr>"

definition doc_half :: document where
  "doc_half = \<lparr>type_doc = ''excalidraw'', version_doc = 2, elements = Some [el_half, el_demi],
     appState = [(''viewBackgroundColor'', ''#ffffff'')], files = []\<rparr>"

section \<open>Properties of the fingerprint\<close>

lemma digits_nonempty: "digits n \<noteq> []"
  by (subst digits.simps) simp

lemma digit_char_inj:
  assumes "a < 10" "b < 10" "char_of (48 + a) = (char_of (48 + b) :: char)"
  shows "a = (b::nat)"
proof -
  have "of_char (char_of (48 + a) :: char) = (of_char (char_of (48 + b) :: char) :: nat)"
    using assms(3) by simp
  then have "(48 + a) mod 256 = (48 + b) mod 256"
    by (simp only: of_char_of)
  with assms(1,2) show ?thesis by simp
qed

lemma digits_small: "n < 10 \<Longrightarrow> digits n = [char_of (48 + n)]"
  by (subst digits.simps) simp

lemma digits_big: "\<not> n < 10 \<Longrightarrow> digits n = digits (n div 10) @ [char_of (48 + n mod 10)]"
  by (subst digits.simps) simp

lemma digits_inj: "digits m = digits n \<Longrightarrow> m = n"
proof (induction m arbitrary: n rule: digits.induct)
  case (1 m)
  show ?case
  proof (cases "m < 10")
    case small_m: True
    show ?thesis
    proof (cases "n < 10")
      case True
      with small_m "1.prems" show ?thesis
        by (simp add: digits_small digit_char_inj)
    next
      case False
      with small_m "1.prems" digits_nonempty [of "n div 10"] show ?thesis
        by (simp add: digits_small digits_big)
    qed
  next
    case big_m: False
    show ?thesis
    proof (cases "n < 10")
      case True
      with big_m "1.prems" digits_nonempty [of "m div 10"] show ?thesis
        by (simp add: digits_small digits_big)
    next
      case False
      from big_m False "1.prems"
      have "digits (m div 10) = digits (n div 10)"
        and c: "char_of (48 + m mod 10) = (char_of (48 + n mod 10) :: char)"
        by (simp_all add: digits_big)
      then have "m div 10 = n div 10"
        using "1.IH" big_m by blast
      moreover have "m mod 10 = n mod 10"
        using c by (intro digit_char_inj) simp_all
      ultimately show ?thesis
        by (metis div_mult_mod_eq)
    qed
  qed
qed

lemma digits_range: "c \<in> set (digits n) \<Longrightarrow> 48 \<le> (of_char c :: nat) \<and> (of_char c :: nat) < 58"
proof (induction n rule: digits.induct)
  case (1 n)
  show ?case
  proof (cases "n < 10")
    case True
    with "1.prems" show ?thesis by (auto simp add: digits_small)
  next
    case False
    have "n mod 10 < 10" by simp
    then have "(48 + n mod 10) mod 256 = 48 + n mod 10" by simp
    with False "1.prems" "1.IH" show ?thesis by (auto simp add: digits_big)
  qed
qed

lemma colon_notin_digits: "CHR '':'' \<notin> set (digits n)"
  using digits_range [of "CHR '':''" n] by auto

lemma minus_notin_digits: "CHR ''-'' \<notin> set (digits n)"
  using digits_range [of "CHR ''-''" n] by auto

lemma show_int_inj: "show_int i = show_int j \<Longrightarrow> i = j"
proof -
  assume eq: "show_int i = show_int j"
  consider "i < 0" "j < 0" | "i < 0" "\<not> j < 0" | "\<not> i < 0" "j < 0" | "\<not> i < 0" "\<not> j < 0"
    by blast
  then show "i = j"
  proof cases
    case 1
    with eq have "digits (nat (- i)) = digits (nat (- j))" by (simp add: show_int_def)
    then have "nat (- i) = nat (- j)" by (rule digits_inj)
    with 1 show ?thesis by simp
  next
    case 2
    with eq have "digits (nat j) = CHR ''-'' # digits (nat (- i))"
      by (simp add: show_int_def)
    then have "CHR ''-'' \<in> set (digits (nat j))"
      by simp
    then show ?thesis by (simp add: minus_notin_digits)
  next
    case 3
    with eq have "digits (nat i) = CHR ''-'' # digits (nat (- j))"
      by (simp add: show_int_def)
    then have "CHR ''-'' \<in> set (digits (nat i))"
      by simp
    then show ?thesis by (simp add: minus_notin_digits)
  next
    case 4
    with eq have "digits (nat i) = digits (nat j)" by (simp add: show_int_def)
    then have "nat i = nat j" by (rule digits_inj)
    with 4 show ?thesis by simp
  qed
qed

lemma split_at_separator:
  "c \<notin> set xs \<Longrightarrow> c \<notin> set xs' \<Longrightarrow> xs @ c # ys = xs' @ c # ys' \<Longrightarrow> xs = xs' \<and> ys = ys'"
proof (induction xs arbitrary: xs')
  case Nil
  then show ?case by (cases xs') auto
next
  case (Cons a xs)
  then show ?case by (cases xs') auto
qed

lemma digit_chars:
  "char_of (48::nat) = CHR ''0''" "char_of (49::nat) = CHR ''1''" "char_of (50::nat) = CHR ''2''"
  "char_of (51::nat) = CHR ''3''" "char_of (52::nat) = CHR ''4''" "char_of (53::nat) = CHR ''5''"
  "char_of (54::nat) = CHR ''6''" "char_of (55::nat) = CHR ''7''" "char_of (56::nat) = CHR ''8''"
  "char_of (57::nat) = CHR ''9''"
  by code_simp+

lemma bitlen_nat_0: "bitlen_nat 0 = 0"
  by (subst bitlen_nat.simps) simp

lemma bitlen_nat_numeral: "bitlen_nat (numeral k) = Suc (bitlen_nat (numeral k div 2))"
  by (subst bitlen_nat.simps) simp

lemma bitlen_nat_1: "bitlen_nat (Suc 0) = Suc 0"
  by (subst bitlen_nat.simps) (simp add: bitlen_nat_0)

text \<open>The rules that evaluate a fingerprint on concrete elements.\<close>

lemmas js_eval = js_round_def Let_def bitlen_nat_0 bitlen_nat_1 bitlen_nat_numeral
  digits_small digits_big digit_chars show_int_def fp_string_def sceneFingerprint_def
  version_or0_def

lemma letter_notin_show_int:
  "CHR ''I'' \<notin> set (show_int i)" "CHR ''N'' \<notin> set (show_int i)"
  using digits_range [of "CHR ''I''" "nat (- i)"] digits_range [of "CHR ''I''" "nat i"]
    digits_range [of "CHR ''N''" "nat (- i)"] digits_range [of "CHR ''N''" "nat i"]
  by (auto simp add: show_int_def)

lemma show_int_not_special:
  "show_int i \<noteq> ''Infinity''" "show_int i \<noteq> ''-Infinity''" "show_int i \<noteq> ''NaN''"
proof -
  show "show_int i \<noteq> ''Infinity''"
  proof
    assume "show_int i = ''Infinity''"
    then have "CHR ''I'' \<in> set (show_int i)" by simp
    then show False by (simp add: letter_notin_show_int)
  qed
  show "show_int i \<noteq> ''-Infinity''"
  proof
    assume "show_int i = ''-Infinity''"
    then have "CHR ''I'' \<in> set (show_int i)" by simp
    then show False by (simp add: letter_notin_show_int)
  qed
  show "show_int i \<noteq> ''NaN''"
  proof
    assume "show_int i = ''NaN''"
    then have "CHR ''N'' \<in> set (show_int i)" by simp
    then show False by (simp add: letter_notin_show_int)
  qed
qed

lemma show_num_inj: "show_num x = show_num y \<Longrightarrow> x = y"
proof (cases x)
  case (Fin i)
  then show "show_num x = show_num y \<Longrightarrow> x = y"
    using show_int_not_special [of i] by (cases y) (auto dest: show_int_inj)
next
  case PlusInfinity
  then show "show_num x = show_num y \<Longrightarrow> x = y"
    by (cases y) (use show_int_not_special in \<open>auto dest: sym\<close>)
next
  case MinusInfinity
  then show "show_num x = show_num y \<Longrightarrow> x = y"
    by (cases y) (use show_int_not_special in \<open>auto dest: sym\<close>)
next
  case NaN
  then show "show_num x = show_num y \<Longrightarrow> x = y"
    by (cases y) (use show_int_not_special in \<open>auto dest: sym\<close>)
qed

lemma fp_string_inj: "fp_string p = fp_string q \<Longrightarrow> p = q"
proof -
  assume "fp_string p = fp_string q"
  then have "digits (fst p) @ CHR '':'' # show_num (snd p) = digits (fst q) @ CHR '':'' # show_num (snd q)"
    by (simp add: fp_string_def)
  then have "digits (fst p) = digits (fst q) \<and> show_num (snd p) = show_num (snd q)"
    by (rule split_at_separator [OF colon_notin_digits colon_notin_digits])
  then have "fst p = fst q" "snd p = snd q"
    by (simp_all add: digits_inj show_num_inj)
  then show "p = q" by (simp add: prod_eq_iff)
qed

lemma js_round_safe: "\<bar>n\<bar> < 2 ^ 53 \<Longrightarrow> js_round n = n"
proof -
  assume "\<bar>n\<bar> < 2 ^ 53"
  then have "nat \<bar>n\<bar> < 2 ^ 53"
    by (simp add: nat_less_iff)
  then show ?thesis
    by (simp add: js_round_def Let_def)
qed

lemma safe_below_overflow: "(2::int) ^ 53 < 2 ^ 1024"
  by (rule power_strict_increasing) simp_all

lemma js_add_safe: "\<bar>a + b\<bar> < 2 ^ 53 \<Longrightarrow> js_add (Fin a) (Fin b) = Fin (a + b)"
proof -
  assume s: "\<bar>a + b\<bar> < 2 ^ 53"
  then have r: "js_round (a + b) = a + b" by (rule js_round_safe)
  from s safe_below_overflow have "\<not> 2 ^ 1024 \<le> a + b" "\<not> a + b \<le> - (2 ^ 1024)"
    by linarith+
  with r show ?thesis by (simp add: Let_def)
qed

lemma abs_sum_nonneg: "0 \<le> abs_sum E"
  by (induction E) (simp_all add: abs_sum_def split: option.splits)

lemma abs_sum_Cons:
  "abs_sum (e # E) = (if isDeleted e then abs_sum E else \<bar>version_or0 e\<bar> + abs_sum E)"
  by (simp add: abs_sum_def version_or0_def split: option.splits)

lemma activeCount_Cons:
  "activeCount (e # E) = (if isDeleted e then activeCount E else Suc (activeCount E))"
  by (simp add: activeCount_def)

lemma versionSum_Cons:
  "versionSum (e # E) = (if isDeleted e then versionSum E else version_or0 e + versionSum E)"
  by (simp add: versionSum_def version_or0_def split: option.splits)

lemma fp_loop_safe:
  "\<bar>s\<bar> + abs_sum E < 2 ^ 53 \<Longrightarrow> fp_loop E c (Fin s) = (c + activeCount E, Fin (s + versionSum E))"
proof (induction E arbitrary: c s)
  case Nil
  then show ?case by (simp add: activeCount_def versionSum_def)
next
  case (Cons e E)
  show ?case
  proof (cases "isDeleted e")
    case True
    with Cons.prems have "\<bar>s\<bar> + abs_sum E < 2 ^ 53"
      by (simp add: abs_sum_Cons)
    from Cons.IH [OF this] True show ?thesis
      by (simp add: activeCount_Cons versionSum_Cons)
  next
    case False
    with Cons.prems have b: "\<bar>s\<bar> + \<bar>version_or0 e\<bar> + abs_sum E < 2 ^ 53"
      by (simp add: abs_sum_Cons)
    with abs_sum_nonneg [of E] have "\<bar>s + version_or0 e\<bar> < 2 ^ 53"
      by linarith
    then have add: "js_add (Fin s) (Fin (version_or0 e)) = Fin (s + version_or0 e)"
      by (rule js_add_safe)
    from b have "\<bar>s + version_or0 e\<bar> + abs_sum E < 2 ^ 53"
      by linarith
    from Cons.IH [OF this] False add show ?thesis
      by (simp add: activeCount_Cons versionSum_Cons add.assoc)
  qed
qed

lemma fp_string_zero: "fp_string (0, Fin 0) = ''0:0''"
  by (simp add: js_eval)

lemma sceneFingerprint_safe:
  "abs_sum E < 2 ^ 53 \<Longrightarrow> sceneFingerprint (Some E) = fp_string (activeCount E, Fin (versionSum E))"
proof (cases E)
  case Nil
  then show ?thesis
    by (simp add: sceneFingerprint_def activeCount_def versionSum_def fp_string_zero)
next
  case (Cons e es)
  assume "abs_sum E < 2 ^ 53"
  then have "\<bar>0\<bar> + abs_sum E < 2 ^ 53" by simp
  from fp_loop_safe [OF this, of 0] Cons show ?thesis
    by (simp add: sceneFingerprint_def)
qed

lemma fp_loop_view:
  "map fp_view E = map fp_view F \<Longrightarrow> fp_loop E c s = fp_loop F c s"
proof (induction E arbitrary: F c s)
  case Nil
  then show ?case by simp
next
  case (Cons e E)
  then obtain f F' where F: "F = f # F'" by (cases F) auto
  with Cons.prems have h: "fp_view e = fp_view f" and rest: "map fp_view E = map fp_view F'"
    by simp_all
  from h have v: "isDeleted e = isDeleted f" "version e = version f"
    by (simp_all add: fp_view_def)
  from v have "version_or0 e = version_or0 f" by (simp add: version_or0_def)
  with v F Cons.IH [OF rest] show ?case by simp
qed

lemma sceneFingerprint_view:
  "map fp_view E = map fp_view F \<Longrightarrow> sceneFingerprint (Some E) = sceneFingerprint (Some F)"
proof -
  assume m: "map fp_view E = map fp_view F"
  then have "(E = []) = (F = [])" by (metis map_is_Nil_conv)
  with fp_loop_view [OF m] show ?thesis by (simp add: sceneFingerprint_def)
qed

lemma activeCount_view:
  "activeCount E = size (filter_mset (\<lambda>p. \<not> fst p) (mset (map fp_view E)))"
  by (induction E) (simp_all add: activeCount_def fp_view_def)

lemma versionSum_view:
  "versionSum E =
     sum_mset (image_mset (\<lambda>p. case snd p of None \<Rightarrow> 0 | Some v \<Rightarrow> v)
       (filter_mset (\<lambda>p. \<not> fst p) (mset (map fp_view E))))"
  by (induction E) (simp_all add: versionSum_def fp_view_def)

lemma abs_sum_view:
  "abs_sum E =
     sum_mset (image_mset (\<lambda>p. case snd p of None \<Rightarrow> 0 | Some v \<Rightarrow> \<bar>v\<bar>)
       (filter_mset (\<lambda>p. \<not> fst p) (mset (map fp_view E))))"
  by (induction E) (simp_all add: abs_sum_def fp_view_def)

lemma sceneFingerprint_mset:
  assumes "abs_sum E < 2 ^ 53" and "mset (map fp_view E) = mset (map fp_view F)"
  shows "sceneFingerprint (Some E) = sceneFingerprint (Some F)"
proof -
  from assms(2) have eq: "activeCount E = activeCount F" "versionSum E = versionSum F"
    "abs_sum E = abs_sum F"
    by (simp_all only: activeCount_view versionSum_view abs_sum_view)
  with assms(1) have "abs_sum F < 2 ^ 53" by simp
  with assms(1) eq show ?thesis by (simp add: sceneFingerprint_safe)
qed

text \<open>
  Claim C1 says that the fingerprint of every element sequence is the count and the sum
  of the versions, whatever the order. The sum is a sum of JavaScript numbers: from
  \<open>2 ^ 53\<close> on it is rounded. The versions \<open>2 ^ 53\<close> and 1 sum to 9007199254740993,
  the code's fingerprint says 9007199254740992; and the elements with versions
  \<open>2 ^ 53\<close>, 1, 1 have one fingerprint in this order and another with the large one last.
\<close>

theorem fingerprint_rounding_counterexample:
  "versionSum [el_big, el_one] = 9007199254740993
   \<and> sceneFingerprint (Some [el_big, el_one]) = ''2:9007199254740992''
   \<and> mset [el_big, el_one, el_uno] = mset [el_one, el_uno, el_big]
   \<and> sceneFingerprint (Some [el_big, el_one, el_uno]) = ''3:9007199254740992''
   \<and> sceneFingerprint (Some [el_one, el_uno, el_big]) = ''3:9007199254740994''"
proof (intro conjI)
  show "versionSum [el_big, el_one] = 9007199254740993"
    by (simp add: versionSum_def el_big_def el_one_def)
  show "sceneFingerprint (Some [el_big, el_one]) = ''2:9007199254740992''"
    by (simp add: js_eval el_big_def el_one_def)
  show "mset [el_big, el_one, el_uno] = mset [el_one, el_uno, el_big]"
    by (simp add: add.commute add.left_commute)
  show "sceneFingerprint (Some [el_big, el_one, el_uno]) = ''3:9007199254740992''"
    by (simp add: js_eval el_big_def el_one_def el_uno_def)
  show "sceneFingerprint (Some [el_one, el_uno, el_big]) = ''3:9007199254740994''"
    by (simp add: js_eval el_big_def el_one_def el_uno_def)
qed

text \<open>
  Claim C1, amended. For every element sequence \<open>E\<close> in which the magnitudes of the
  versions of the elements that are not deleted sum to less than \<open>2 ^ 53\<close>, the
  fingerprint is the pair of the number of those elements and the sum of their versions,
  a missing version counting as 0. The code renders the pair as the text \<open>count:sum\<close>,
  and the rendering loses nothing (equal texts come from equal pairs). For every \<open>E\<close>
  the fingerprint is a function of the sequence of \<open>(isDeleted, version)\<close> pairs of \<open>E\<close>
  and of nothing else; within the range above it is a function of their multiset, so
  that no permutation of \<open>E\<close> changes it.
\<close>

theorem fingerprint_is_count_and_sum:
  "(abs_sum E < 2 ^ 53 \<longrightarrow>
      sceneFingerprint (Some E) = fp_string (activeCount E, Fin (versionSum E)))
   \<and> (fp_string p = fp_string q \<longrightarrow> p = q)
   \<and> (map fp_view E = map fp_view F \<longrightarrow>
        sceneFingerprint (Some E) = sceneFingerprint (Some F))
   \<and> (abs_sum E < 2 ^ 53 \<and> mset (map fp_view E) = mset (map fp_view F) \<longrightarrow>
        sceneFingerprint (Some E) = sceneFingerprint (Some F))
   \<and> (abs_sum E < 2 ^ 53 \<and> mset E = mset G \<longrightarrow>
        sceneFingerprint (Some E) = sceneFingerprint (Some G))"
proof (intro conjI impI)
  assume "abs_sum E < 2 ^ 53"
  then show "sceneFingerprint (Some E) = fp_string (activeCount E, Fin (versionSum E))"
    by (rule sceneFingerprint_safe)
next
  assume "fp_string p = fp_string q"
  then show "p = q" by (rule fp_string_inj)
next
  assume "map fp_view E = map fp_view F"
  then show "sceneFingerprint (Some E) = sceneFingerprint (Some F)"
    by (rule sceneFingerprint_view)
next
  assume "abs_sum E < 2 ^ 53 \<and> mset (map fp_view E) = mset (map fp_view F)"
  then show "sceneFingerprint (Some E) = sceneFingerprint (Some F)"
    by (simp add: sceneFingerprint_mset)
next
  assume a: "abs_sum E < 2 ^ 53 \<and> mset E = mset G"
  then have "mset (map fp_view E) = mset (map fp_view G)"
    by (metis mset_map)
  with a show "sceneFingerprint (Some E) = sceneFingerprint (Some G)"
    by (simp add: sceneFingerprint_mset)
qed

theorem fingerprint_is_count_and_sum_witness:
  "abs_sum [el_a, el_b, el_c] < 2 ^ 53
   \<and> mset [el_a, el_b, el_c] = mset [el_c, el_a, el_b]
   \<and> sceneFingerprint (Some [el_a, el_b, el_c]) = sceneFingerprint (Some [el_c, el_a, el_b])
   \<and> sceneFingerprint (Some [el_a, el_b, el_c]) = fp_string (2, Fin 3)
   \<and> fp_string (2, Fin 3) = ''2:3''"
proof -
  have safe: "abs_sum [el_a, el_b, el_c] < 2 ^ 53"
    by (simp add: abs_sum_def el_a_def el_b_def el_c_def)
  have perm: "mset [el_a, el_b, el_c] = mset [el_c, el_a, el_b]"
    by (simp add: add.commute add.left_commute)
  have cs: "activeCount [el_a, el_b, el_c] = 2" "versionSum [el_a, el_b, el_c] = 3"
    by (simp_all add: activeCount_def versionSum_def el_a_def el_b_def el_c_def)
  note th = fingerprint_is_count_and_sum [where E = "[el_a, el_b, el_c]" and G = "[el_c, el_a, el_b]"]
  from th safe perm
  have 1: "sceneFingerprint (Some [el_a, el_b, el_c]) = sceneFingerprint (Some [el_c, el_a, el_b])"
    by blast
  from th safe
  have "sceneFingerprint (Some [el_a, el_b, el_c])
      = fp_string (activeCount [el_a, el_b, el_c], Fin (versionSum [el_a, el_b, el_c]))"
    by blast
  then have 2: "sceneFingerprint (Some [el_a, el_b, el_c]) = fp_string (2, Fin 3)"
    by (simp only: cs)
  have 3: "fp_string (2, Fin 3) = ''2:3''"
    by (simp add: js_eval)
  from safe perm 1 2 3 show ?thesis by blast
qed

section \<open>Echo suppression in the client\<close>

lemma abs_version_le_abs_sum:
  "i < length E \<Longrightarrow> \<not> isDeleted (E ! i) \<Longrightarrow> \<bar>version_or0 (E ! i)\<bar> \<le> abs_sum E"
proof (induction E arbitrary: i)
  case Nil
  then show ?case by simp
next
  case (Cons e E)
  show ?case
  proof (cases i)
    case 0
    with Cons.prems abs_sum_nonneg [of E] show ?thesis
      by (simp add: abs_sum_Cons)
  next
    case (Suc j)
    with Cons.prems Cons.IH [of j] have "\<bar>version_or0 ((e # E) ! i)\<bar> \<le> abs_sum E"
      by simp
    moreover have "abs_sum E \<le> abs_sum (e # E)"
      by (simp add: abs_sum_Cons)
    ultimately show ?thesis
      by linarith
  qed
qed

lemma update_counts:
  "i < length E \<Longrightarrow> \<not> isDeleted (E ! i) \<Longrightarrow> \<not> isDeleted e' \<Longrightarrow>
   version_or0 e' = version_or0 (E ! i) + 1 \<Longrightarrow>
     activeCount (E[i := e']) = activeCount E
     \<and> versionSum (E[i := e']) = versionSum E + 1
     \<and> abs_sum (E[i := e']) \<le> abs_sum E + 1"
proof (induction E arbitrary: i)
  case Nil
  then show ?case by simp
next
  case (Cons e E)
  show ?case
  proof (cases i)
    case 0
    with Cons.prems show ?thesis
      by (simp add: activeCount_Cons versionSum_Cons abs_sum_Cons)
  next
    case (Suc j)
    with Cons.prems Cons.IH [of j] show ?thesis
      by (simp add: activeCount_Cons versionSum_Cons abs_sum_Cons)
  qed
qed

lemma bump_version_safe:
  assumes "\<bar>version_or0 el\<bar> + 1 < 2 ^ 53"
  shows "version_or0 (bump_version el) = version_or0 el + 1"
    and "isDeleted (bump_version el) = isDeleted el"
proof -
  from assms have "\<bar>version_or0 el + 1\<bar> < 2 ^ 53" by linarith
  then have "js_round (version_or0 el + 1) = version_or0 el + 1" by (rule js_round_safe)
  then show "version_or0 (bump_version el) = version_or0 el + 1"
    by (simp add: bump_version_def version_or0_def)
  show "isDeleted (bump_version el) = isDeleted el"
    by (simp add: bump_version_def)
qed

lemma bump_changes_fingerprint:
  assumes "i < length E" "\<not> isDeleted (E ! i)" "abs_sum E + 1 < 2 ^ 53"
  shows "sceneFingerprint (Some (E[i := bump_version (E ! i)])) \<noteq> sceneFingerprint (Some E)"
proof
  assume eq: "sceneFingerprint (Some (E[i := bump_version (E ! i)])) = sceneFingerprint (Some E)"
  from abs_version_le_abs_sum [OF assms(1,2)] assms(3)
  have "\<bar>version_or0 (E ! i)\<bar> + 1 < 2 ^ 53" by linarith
  from bump_version_safe [OF this] assms(2)
  have b: "\<not> isDeleted (bump_version (E ! i))"
    "version_or0 (bump_version (E ! i)) = version_or0 (E ! i) + 1"
    by simp_all
  from update_counts [OF assms(1,2) b]
  have c: "activeCount (E[i := bump_version (E ! i)]) = activeCount E"
    "versionSum (E[i := bump_version (E ! i)]) = versionSum E + 1"
    "abs_sum (E[i := bump_version (E ! i)]) \<le> abs_sum E + 1"
    by simp_all
  from c(3) assms(3) have s1: "abs_sum (E[i := bump_version (E ! i)]) < 2 ^ 53" by linarith
  from assms(3) have s0: "abs_sum E < 2 ^ 53" by linarith
  from eq have "fp_string (activeCount E, Fin (versionSum E + 1)) = fp_string (activeCount E, Fin (versionSum E))"
    by (simp only: sceneFingerprint_safe [OF s1] sceneFingerprint_safe [OF s0] c)
  then have "(activeCount E, Fin (versionSum E + 1)) = (activeCount E, Fin (versionSum E))"
    by (rule fp_string_inj)
  then show False by simp
qed

lemma sceneFingerprint_or_empty:
  "sceneFingerprint (Some (case els of None \<Rightarrow> [] | Some es \<Rightarrow> es)) = sceneFingerprint els"
  by (cases els) (simp_all add: sceneFingerprint_def)

text \<open>
  Claim C2 says that a report differing from the delivered document by a single version
  bump is sent. Take a document with two elements of version \<open>2 ^ 52\<close>: its recorded
  fingerprint has the sum \<open>2 ^ 53\<close>. Bump one element to \<open>2 ^ 52 + 1\<close>: the sum of the
  report is rounded to \<open>2 ^ 53\<close> again, the fingerprints are equal and the report is
  discarded.
\<close>

theorem echo_bump_counterexample:
  "elements doc_half = Some [el_half, el_demi]
   \<and> \<not> isDeleted el_half
   \<and> version (bump_version el_half) = Some 4503599627370497
   \<and> lastRemoteFingerprint (onmessage (Some (SceneUpdate (Doc doc_half))) client_live)
       = ''2:9007199254740992''
   \<and> sceneFingerprint (Some [bump_version el_half, el_demi]) = ''2:9007199254740992''
   \<and> sendUpdate [bump_version el_half, el_demi] [] None
         (onmessage (Some (SceneUpdate (Doc doc_half))) client_live)
       = onmessage (Some (SceneUpdate (Doc doc_half))) client_live"
proof -
  have v: "version (bump_version el_half) = Some 4503599627370497"
    by (simp add: bump_version_def el_half_def js_eval)
  have fp0: "sceneFingerprint (Some [el_half, el_demi]) = ''2:9007199254740992''"
    by (simp add: js_eval el_half_def el_demi_def)
  have fp1: "sceneFingerprint (Some [bump_version el_half, el_demi]) = ''2:9007199254740992''"
    by (simp add: js_eval bump_version_def el_half_def el_demi_def)
  have rec: "lastRemoteFingerprint (onmessage (Some (SceneUpdate (Doc doc_half))) client_live)
       = ''2:9007199254740992''"
    by (simp add: onmessage_def incoming_elements_def doc_half_def client_live_def client_init_def
          Let_def fp0)
  have opn: "ws_open (onmessage (Some (SceneUpdate (Doc doc_half))) client_live)"
    by (simp add: onmessage_def incoming_elements_def doc_half_def client_live_def client_init_def
          Let_def)
  have drop: "sendUpdate [bump_version el_half, el_demi] [] None
         (onmessage (Some (SceneUpdate (Doc doc_half))) client_live)
       = onmessage (Some (SceneUpdate (Doc doc_half))) client_live"
    using opn by (simp add: sendUpdate_def Let_def fp1 rec)
  have e: "elements doc_half = Some [el_half, el_demi]" "\<not> isDeleted el_half"
    by (simp_all add: doc_half_def el_half_def)
  from e v rec fp1 drop show ?thesis by blast
qed

text \<open>
  Claim C2, amended. A scene-update carrying document \<open>D\<close>, delivered to a client whose
  editor is ready and whose socket is open, records the fingerprint of \<open>D\<close>'s elements.
  A report of elements with that fingerprint (in particular of \<open>D\<close>'s own elements) then
  sends nothing and leaves the client as it is; a report of elements with another
  fingerprint sends one scene-update carrying them. Bumping the version of one element
  of \<open>D\<close> that is not deleted is enough for the report to be sent, as long as the
  magnitudes of the versions that count, with the bump, sum to less than \<open>2 ^ 53\<close>.
\<close>

theorem echo_suppression:
  assumes "excalidrawAPI c" and "ws_open c"
    and "c1 = onmessage (Some (SceneUpdate (Doc D))) c"
  shows "lastRemoteFingerprint c1 = sceneFingerprint (elements D)
    \<and> (sceneFingerprint (Some E) = sceneFingerprint (elements D) \<longrightarrow>
          sendUpdate E st fs c1 = c1)
    \<and> (elements D = Some E \<longrightarrow> sendUpdate E st fs c1 = c1)
    \<and> (sceneFingerprint (Some E) \<noteq> sceneFingerprint (elements D) \<longrightarrow>
          sent (sendUpdate E st fs c1) = sent c1 @
            [SceneUpdate (Doc \<lparr>type_doc = ''excalidraw'', version_doc = 2, elements = Some E,
               appState = [(''viewBackgroundColor'', viewBackgroundColor_or st)],
               files = files_or fs\<rparr>)])
    \<and> (elements D = Some E \<and> i < length E \<and> \<not> isDeleted (E ! i) \<and> abs_sum E + 1 < 2 ^ 53 \<longrightarrow>
          sent (sendUpdate (E[i := bump_version (E ! i)]) st fs c1) = sent c1 @
            [SceneUpdate (Doc \<lparr>type_doc = ''excalidraw'', version_doc = 2,
               elements = Some (E[i := bump_version (E ! i)]),
               appState = [(''viewBackgroundColor'', viewBackgroundColor_or st)],
               files = files_or fs\<rparr>)])"
proof -
  have rec: "lastRemoteFingerprint c1 = sceneFingerprint (elements D)"
    using assms(1,3)
    by (simp add: onmessage_def incoming_elements_def Let_def sceneFingerprint_or_empty)
  have opn: "ws_open c1"
    using assms by (simp add: onmessage_def incoming_elements_def Let_def)
  have same: "sendUpdate X st fs c1 = c1" if "sceneFingerprint (Some X) = sceneFingerprint (elements D)" for X
    using that rec opn by (simp add: sendUpdate_def Let_def)
  have diff: "sent (sendUpdate X st fs c1) = sent c1 @
            [SceneUpdate (Doc \<lparr>type_doc = ''excalidraw'', version_doc = 2, elements = Some X,
               appState = [(''viewBackgroundColor'', viewBackgroundColor_or st)],
               files = files_or fs\<rparr>)]"
    if "sceneFingerprint (Some X) \<noteq> sceneFingerprint (elements D)" for X
    using that rec opn by (simp add: sendUpdate_def Let_def)
  show ?thesis
  proof (intro conjI impI)
    show "lastRemoteFingerprint c1 = sceneFingerprint (elements D)" by (rule rec)
  next
    assume "sceneFingerprint (Some E) = sceneFingerprint (elements D)"
    then show "sendUpdate E st fs c1 = c1" by (rule same)
  next
    assume "elements D = Some E"
    then show "sendUpdate E st fs c1 = c1" by (simp add: same)
  next
    assume "sceneFingerprint (Some E) \<noteq> sceneFingerprint (elements D)"
    then show "sent (sendUpdate E st fs c1) = sent c1 @
            [SceneUpdate (Doc \<lparr>type_doc = ''excalidraw'', version_doc = 2, elements = Some E,
               appState = [(''viewBackgroundColor'', viewBackgroundColor_or st)],
               files = files_or fs\<rparr>)]" by (rule diff)
  next
    assume a: "elements D = Some E \<and> i < length E \<and> \<not> isDeleted (E ! i) \<and> abs_sum E + 1 < 2 ^ 53"
    then have "sceneFingerprint (Some (E[i := bump_version (E ! i)])) \<noteq> sceneFingerprint (elements D)"
      using bump_changes_fingerprint [of i E] by simp
    then show "sent (sendUpdate (E[i := bump_version (E ! i)]) st fs c1) = sent c1 @
            [SceneUpdate (Doc \<lparr>type_doc = ''excalidraw'', version_doc = 2,
               elements = Some (E[i := bump_version (E ! i)]),
               appState = [(''viewBackgroundColor'', viewBackgroundColor_or st)],
               files = files_or fs\<rparr>)]" by (rule diff)
  qed
qed

theorem echo_suppression_witness:
  "excalidrawAPI client_live \<and> ws_open client_live
   \<and> abs_sum [el_a, el_b, el_c] + 1 < 2 ^ 53
   \<and> lastRemoteFingerprint (onmessage (Some (SceneUpdate (Doc doc_abc))) client_live) = ''2:3''
   \<and> sendUpdate [el_a, el_b, el_c] [] None (onmessage (Some (SceneUpdate (Doc doc_abc))) client_live)
       = onmessage (Some (SceneUpdate (Doc doc_abc))) client_live
   \<and> sent (sendUpdate ([el_a, el_b, el_c][0 := bump_version ([el_a, el_b, el_c] ! 0)]) [] None
         (onmessage (Some (SceneUpdate (Doc doc_abc))) client_live))
       = [SceneUpdate (Doc \<lparr>type_doc = ''excalidraw'', version_doc = 2,
            elements = Some ([el_a, el_b, el_c][0 := bump_version ([el_a, el_b, el_c] ! 0)]),
            appState = [(''viewBackgroundColor'', ''#ffffff'')], files = []\<rparr>)]"
proof -
  have live: "excalidrawAPI client_live" "ws_open client_live"
    by (simp_all add: client_live_def client_init_def)
  have els: "elements doc_abc = Some [el_a, el_b, el_c]"
    by (simp add: doc_abc_def)
  have act: "(0::nat) < length [el_a, el_b, el_c]" "\<not> isDeleted ([el_a, el_b, el_c] ! 0)"
    by (simp_all add: el_a_def)
  have safe: "abs_sum [el_a, el_b, el_c] + 1 < 2 ^ 53"
    by (simp add: abs_sum_def el_a_def el_b_def el_c_def)
  have fp: "sceneFingerprint (elements doc_abc) = ''2:3''"
    unfolding els by (simp add: js_eval el_a_def el_b_def el_c_def)
  have s0: "sent (onmessage (Some (SceneUpdate (Doc doc_abc))) client_live) = []"
    by (simp add: onmessage_def incoming_elements_def Let_def client_live_def client_init_def)
  have bg: "viewBackgroundColor_or [] = ''#ffffff''" "files_or None = []"
    by (simp_all add: viewBackgroundColor_or_def files_or_def)
  note th = echo_suppression [OF live refl, of doc_abc "[el_a, el_b, el_c]" "[]" None 0]
  from th fp have 1: "lastRemoteFingerprint (onmessage (Some (SceneUpdate (Doc doc_abc))) client_live) = ''2:3''"
    by simp
  from th els have 2: "sendUpdate [el_a, el_b, el_c] [] None (onmessage (Some (SceneUpdate (Doc doc_abc))) client_live)
       = onmessage (Some (SceneUpdate (Doc doc_abc))) client_live"
    by blast
  from th els act safe have 3: "sent (sendUpdate ([el_a, el_b, el_c][0 := bump_version ([el_a, el_b, el_c] ! 0)]) [] None
         (onmessage (Some (SceneUpdate (Doc doc_abc))) client_live))
       = sent (onmessage (Some (SceneUpdate (Doc doc_abc))) client_live) @
         [SceneUpdate (Doc \<lparr>type_doc = ''excalidraw'', version_doc = 2,
            elements = Some ([el_a, el_b, el_c][0 := bump_version ([el_a, el_b, el_c] ! 0)]),
            appState = [(''viewBackgroundColor'', viewBackgroundColor_or [])],
            files = files_or None\<rparr>)]"
    by blast
  from 3 have 4: "sent (sendUpdate ([el_a, el_b, el_c][0 := bump_version ([el_a, el_b, el_c] ! 0)]) [] None
         (onmessage (Some (SceneUpdate (Doc doc_abc))) client_live))
       = [SceneUpdate (Doc \<lparr>type_doc = ''excalidraw'', version_doc = 2,
            elements = Some ([el_a, el_b, el_c][0 := bump_version ([el_a, el_b, el_c] ! 0)]),
            appState = [(''viewBackgroundColor'', ''#ffffff'')], files = []\<rparr>)]"
    by (simp only: s0 bg append.simps)
  from live safe 1 2 4 show ?thesis by blast
qed

section \<open>Broadcast\<close>

lemma broadcast_filter:
  "broadcast m ex cs =
     map (\<lambda>c. WsSend (ws_id c) m) (filter (\<lambda>c. Some (ws_id c) \<noteq> ex \<and> readyState c = 1) cs)"
  by (induction cs) simp_all

lemma broadcast_append:
  "broadcast m ex (xs @ ys) = broadcast m ex xs @ broadcast m ex ys"
  by (simp add: broadcast_filter)

lemma broadcast_all:
  "broadcast m None cs = map (\<lambda>c. WsSend (ws_id c) m) (filter (\<lambda>c. readyState c = 1) cs)"
  by (simp add: broadcast_filter)

lemma broadcast_distinct:
  "distinct (map ws_id cs) \<Longrightarrow> distinct (broadcast m ex cs)"
proof -
  assume d: "distinct (map ws_id cs)"
  have "distinct (map ws_id (filter (\<lambda>c. Some (ws_id c) \<noteq> ex \<and> readyState c = 1) cs))"
    using d by (rule distinct_map_filter)
  then have "distinct (map (\<lambda>w. WsSend w m) (map ws_id (filter (\<lambda>c. Some (ws_id c) \<noteq> ex \<and> readyState c = 1) cs)))"
    by (simp add: distinct_map inj_on_def)
  then show ?thesis by (simp add: broadcast_filter comp_def)
qed

text \<open>
  Claim C6. For every message, excluded socket (or none) and set of registered sockets,
  \<open>broadcast\<close> sends the message once to each registered socket that is not the excluded
  one and is OPEN, in the order of registration, and does nothing else: the excluded
  socket gets nothing, and a socket that is not OPEN is passed over without any effect
  on the deliveries to the sockets before and after it.
\<close>

theorem broadcast_delivery:
  "broadcast m ex cs =
     map (\<lambda>c. WsSend (ws_id c) m) (filter (\<lambda>c. Some (ws_id c) \<noteq> ex \<and> readyState c = 1) cs)
   \<and> (\<forall>c \<in> set cs. Some (ws_id c) \<noteq> ex \<and> readyState c = 1 \<longrightarrow>
         WsSend (ws_id c) m \<in> set (broadcast m ex cs))
   \<and> (\<forall>m'. WsSend S m' \<notin> set (broadcast m (Some S) cs))
   \<and> (\<forall>w m'. WsSend w m' \<in> set (broadcast m ex cs) \<longrightarrow>
         m' = m \<and> (\<exists>c \<in> set cs. ws_id c = w \<and> readyState c = 1))
   \<and> (\<forall>e \<in> set (broadcast m ex cs). \<exists>w. e = WsSend w m)
   \<and> (readyState c0 \<noteq> 1 \<longrightarrow> broadcast m ex (xs @ c0 # ys) = broadcast m ex (xs @ ys))
   \<and> (distinct (map ws_id cs) \<longrightarrow> distinct (broadcast m ex cs))"
proof (intro conjI)
  show "broadcast m ex cs =
     map (\<lambda>c. WsSend (ws_id c) m) (filter (\<lambda>c. Some (ws_id c) \<noteq> ex \<and> readyState c = 1) cs)"
    by (rule broadcast_filter)
  show "\<forall>c \<in> set cs. Some (ws_id c) \<noteq> ex \<and> readyState c = 1 \<longrightarrow>
         WsSend (ws_id c) m \<in> set (broadcast m ex cs)"
    by (auto simp add: broadcast_filter)
  show "\<forall>m'. WsSend S m' \<notin> set (broadcast m (Some S) cs)"
    by (auto simp add: broadcast_filter)
  show "\<forall>w m'. WsSend w m' \<in> set (broadcast m ex cs) \<longrightarrow>
         m' = m \<and> (\<exists>c \<in> set cs. ws_id c = w \<and> readyState c = 1)"
    by (auto simp add: broadcast_filter)
  show "\<forall>e \<in> set (broadcast m ex cs). \<exists>w. e = WsSend w m"
    by (auto simp add: broadcast_filter)
  show "readyState c0 \<noteq> 1 \<longrightarrow> broadcast m ex (xs @ c0 # ys) = broadcast m ex (xs @ ys)"
    by (simp add: broadcast_filter)
  show "distinct (map ws_id cs) \<longrightarrow> distinct (broadcast m ex cs)"
    by (simp add: broadcast_distinct)
qed

theorem broadcast_delivery_witness:
  "broadcast ExportRequest (Some 1) three_clients = [WsSend 3 ExportRequest]
   \<and> WsSend 3 ExportRequest \<in> set (broadcast ExportRequest (Some 1) three_clients)
   \<and> WsSend 2 ExportRequest \<notin> set (broadcast ExportRequest (Some 1) three_clients)
   \<and> WsSend 1 ExportRequest \<notin> set (broadcast ExportRequest (Some 1) three_clients)
   \<and> distinct (broadcast ExportRequest (Some 1) three_clients)"
proof -
  have ids: "distinct (map ws_id three_clients)"
    by (simp add: three_clients_def)
  have val: "broadcast ExportRequest (Some 1) three_clients = [WsSend 3 ExportRequest]"
    by (simp add: three_clients_def)
  from broadcast_delivery [of ExportRequest "Some 1" three_clients 1] ids
  have "distinct (broadcast ExportRequest (Some 1) three_clients)"
    and "WsSend 1 ExportRequest \<notin> set (broadcast ExportRequest (Some 1) three_clients)"
    by blast+
  with val show ?thesis by simp
qed

section \<open>Save and rebroadcast\<close>

text \<open>
  Claim C7. A scene-update message from socket \<open>ws\<close> is first written to the file
  (recording the time of the write) and then sent to every OPEN socket but \<open>ws\<close>;
  a document put through \<open>PUT /api/canvas\<close> is first written and then sent to
  every OPEN socket, no socket excluded, before the request is acknowledged.
\<close>

theorem save_then_broadcast:
  "on_message ws (Some (SceneUpdate d)) now s =
     (s\<lparr>lastWriteFromClient := now, canvas_file := Holds d\<rparr>,
      FileWrite d # map (\<lambda>c. WsSend (ws_id c) (SceneUpdate d))
        (filter (\<lambda>c. ws_id c \<noteq> ws \<and> readyState c = 1) (clients s)))
   \<and> put_canvas req d now s =
     (s\<lparr>lastWriteFromClient := now, canvas_file := Holds d\<rparr>,
      FileWrite d # map (\<lambda>c. WsSend (ws_id c) (SceneUpdate d))
        (filter (\<lambda>c. readyState c = 1) (clients s)) @ [HttpReply req OkJson])"
  by (simp add: on_message_def put_canvas_def writeCanvas_def broadcast_filter)

theorem save_then_broadcast_witness:
  "snd (on_message 1 (Some (SceneUpdate (Doc doc_abc))) 5000 server_abc)
     = [FileWrite (Doc doc_abc), WsSend 3 (SceneUpdate (Doc doc_abc))]
   \<and> snd (put_canvas 7 (Doc doc_abc) 5000 server_abc)
     = [FileWrite (Doc doc_abc), WsSend 1 (SceneUpdate (Doc doc_abc)), WsSend 3 (SceneUpdate (Doc doc_abc)),
        HttpReply 7 OkJson]
   \<and> canvas_file (fst (on_message 1 (Some (SceneUpdate (Doc doc_abc))) 5000 server_abc)) = Holds (Doc doc_abc)"
  using save_then_broadcast [of 1 "Doc doc_abc" 5000 server_abc 7]
  by (simp add: server_abc_def three_clients_def)

section \<open>File watcher\<close>

text \<open>
  Claim C5. On a file-change notification at time \<open>now\<close>: when less than the quiet
  window of \<open>DEBOUNCE_MS + 200\<close> = 500 ms has passed since the last \<open>writeCanvas\<close>,
  nothing is sent and nothing changes (in particular right after a \<open>writeCanvas\<close> at
  time \<open>t\<close>); otherwise the file is read again and one scene-update carrying what
  was read goes to every OPEN socket, none excluded. A write by another process followed
  by such a notification broadcasts the content that process wrote.
\<close>

theorem watcher_quiet_window:
  "DEBOUNCE_MS + 200 = 500
   \<and> (now - lastWriteFromClient s < DEBOUNCE_MS + 200 \<longrightarrow> watcher_change now s = (s, []))
   \<and> (DEBOUNCE_MS + 200 \<le> now - lastWriteFromClient s \<longrightarrow>
        watcher_change now s =
          (s, map (\<lambda>c. WsSend (ws_id c) (SceneUpdate (readCanvas (canvas_file s))))
                (filter (\<lambda>c. readyState c = 1) (clients s))))
   \<and> (now - t < DEBOUNCE_MS + 200 \<longrightarrow>
        watcher_change now (fst (writeCanvas t d s)) = (fst (writeCanvas t d s), []))
   \<and> (DEBOUNCE_MS + 200 \<le> now - lastWriteFromClient s \<longrightarrow>
        snd (run [ExternalWrite f, FileChange now] s) =
          map (\<lambda>c. WsSend (ws_id c) (SceneUpdate (readCanvas f)))
            (filter (\<lambda>c. readyState c = 1) (clients s)))"
  by (simp add: watcher_change_def DEBOUNCE_MS_def writeCanvas_def broadcast_filter
        external_write_def Let_def)

theorem watcher_quiet_window_witness:
  "watcher_change 1499 server_abc = (server_abc, [])
   \<and> snd (watcher_change 1500 server_abc)
       = [WsSend 1 (SceneUpdate (Doc DEFAULT_CANVAS)), WsSend 3 (SceneUpdate (Doc DEFAULT_CANVAS))]
   \<and> snd (watcher_change 5100 (fst (writeCanvas 5000 (Doc doc_abc) server_abc))) = []
   \<and> snd (run [ExternalWrite (Holds (Doc doc_abc)), FileChange 1500] server_abc)
       = [WsSend 1 (SceneUpdate (Doc doc_abc)), WsSend 3 (SceneUpdate (Doc doc_abc))]"
proof -
  have a: "(1499::int) - lastWriteFromClient server_abc < DEBOUNCE_MS + 200"
    and b: "DEBOUNCE_MS + 200 \<le> (1500::int) - lastWriteFromClient server_abc"
    and c: "(5100::int) - 5000 < DEBOUNCE_MS + 200"
    by (simp_all add: server_abc_def DEBOUNCE_MS_def)
  from watcher_quiet_window [of 1499 server_abc] a
  have 1: "watcher_change 1499 server_abc = (server_abc, [])" by blast
  from watcher_quiet_window [of 1500 server_abc 0 "Doc doc_abc" "Holds (Doc doc_abc)"] b
  have 2: "snd (watcher_change 1500 server_abc)
       = [WsSend 1 (SceneUpdate (Doc DEFAULT_CANVAS)), WsSend 3 (SceneUpdate (Doc DEFAULT_CANVAS))]"
    and 4: "snd (run [ExternalWrite (Holds (Doc doc_abc)), FileChange 1500] server_abc)
       = [WsSend 1 (SceneUpdate (Doc doc_abc)), WsSend 3 (SceneUpdate (Doc doc_abc))]"
    by (simp_all add: server_abc_def three_clients_def readCanvas_def)
  from watcher_quiet_window [of 5100 server_abc 5000 "Doc doc_abc"] c
  have 3: "snd (watcher_change 5100 (fst (writeCanvas 5000 (Doc doc_abc) server_abc))) = []"
    by simp
  from 1 2 3 4 show ?thesis by simp
qed

section \<open>Connection\<close>

lemma sends_to_append: "sends_to w (xs @ ys) = sends_to w xs @ sends_to w ys"
  by (simp add: sends_to_def)

lemma run_Cons:
  "run (e # es) s = (fst (run es (fst (step e s))), snd (step e s) @ snd (run es (fst (step e s))))"
  by (simp add: split_beta)

text \<open>
  Claim C10. On a new connection the relay reads the canvas and sends one scene-update
  carrying it to the new socket and to no other: what the file holds when it parses,
  the default document when the file is absent or does not parse. In every run that
  starts with the connection, this is the first message the socket receives.
\<close>

theorem connection_greeting:
  "on_connection ws s =
     (s\<lparr>clients := clients s @ [\<lparr>ws_id = ws, readyState = 1\<rparr>]\<rparr>,
      [WsSend ws (SceneUpdate (readCanvas (canvas_file s)))])
   \<and> (canvas_file s = Holds v \<longrightarrow> snd (on_connection ws s) = [WsSend ws (SceneUpdate v)])
   \<and> (canvas_file s = Absent \<longrightarrow>
        snd (on_connection ws s) = [WsSend ws (SceneUpdate (Doc DEFAULT_CANVAS))])
   \<and> (canvas_file s = Unparseable raw \<longrightarrow>
        snd (on_connection ws s) = [WsSend ws (SceneUpdate (Doc DEFAULT_CANVAS))])
   \<and> sends_to ws (snd (run (Connect ws # evs) s)) =
       SceneUpdate (readCanvas (canvas_file s)) # sends_to ws (snd (run evs (fst (on_connection ws s))))
   \<and> (w \<noteq> ws \<longrightarrow> sends_to w (snd (on_connection ws s)) = [])"
proof (intro conjI)
  show c: "on_connection ws s =
     (s\<lparr>clients := clients s @ [\<lparr>ws_id = ws, readyState = 1\<rparr>]\<rparr>,
      [WsSend ws (SceneUpdate (readCanvas (canvas_file s)))])"
    by (simp add: on_connection_def Let_def)
  show "canvas_file s = Holds v \<longrightarrow> snd (on_connection ws s) = [WsSend ws (SceneUpdate v)]"
    by (simp add: c readCanvas_def)
  show "canvas_file s = Absent \<longrightarrow>
        snd (on_connection ws s) = [WsSend ws (SceneUpdate (Doc DEFAULT_CANVAS))]"
    by (simp add: c readCanvas_def)
  show "canvas_file s = Unparseable raw \<longrightarrow>
        snd (on_connection ws s) = [WsSend ws (SceneUpdate (Doc DEFAULT_CANVAS))]"
    by (simp add: c readCanvas_def)
  show "sends_to ws (snd (run (Connect ws # evs) s)) =
       SceneUpdate (readCanvas (canvas_file s)) # sends_to ws (snd (run evs (fst (on_connection ws s))))"
    by (simp only: run_Cons step.simps snd_conv sends_to_append) (simp add: c sends_to_def)
  show "w \<noteq> ws \<longrightarrow> sends_to w (snd (on_connection ws s)) = []"
    by (simp add: c sends_to_def)
qed

theorem connection_greeting_witness:
  "canvas_file server_doc = Holds (Doc doc_abc)
   \<and> snd (on_connection 9 server_doc) = [WsSend 9 (SceneUpdate (Doc doc_abc))]
   \<and> sends_to 9 (snd (run [Connect 9, PutCanvas 7 (Doc doc_v1) 5000] server_doc))
       = [SceneUpdate (Doc doc_abc), SceneUpdate (Doc doc_v1)]
   \<and> sends_to 1 (snd (on_connection 9 server_doc)) = []
   \<and> snd (on_connection 9 server_nofile) = [WsSend 9 (SceneUpdate (Doc DEFAULT_CANVAS))]"
proof -
  have ne: "(1::nat) \<noteq> 9" by simp
  have hold: "canvas_file server_doc = Holds (Doc doc_abc)"
    by (simp add: server_doc_def server_abc_def)
  have absent: "canvas_file server_nofile = Absent"
    by (simp add: server_nofile_def server_abc_def)
  have rest: "sends_to 9 (snd (run [PutCanvas 7 (Doc doc_v1) 5000] (fst (on_connection 9 server_doc))))
     = [SceneUpdate (Doc doc_v1)]"
    by (simp add: on_connection_def put_canvas_def writeCanvas_def server_doc_def server_abc_def
          three_clients_def sends_to_def Let_def)
  have rd: "readCanvas (canvas_file server_doc) = Doc doc_abc"
    by (simp add: hold readCanvas_def)
  note th = connection_greeting [of 9 server_doc "Doc doc_abc" "[]" "[PutCanvas 7 (Doc doc_v1) 5000]" 1]
  from th hold have greet: "snd (on_connection 9 server_doc) = [WsSend 9 (SceneUpdate (Doc doc_abc))]"
    by blast
  from th
  have first: "sends_to 9 (snd (run [Connect 9, PutCanvas 7 (Doc doc_v1) 5000] server_doc)) =
       SceneUpdate (readCanvas (canvas_file server_doc)) #
       sends_to 9 (snd (run [PutCanvas 7 (Doc doc_v1) 5000] (fst (on_connection 9 server_doc))))"
    and other: "(1::nat) \<noteq> 9 \<longrightarrow> sends_to 1 (snd (on_connection 9 server_doc)) = []"
    by blast+
  from other ne have none: "sends_to 1 (snd (on_connection 9 server_doc)) = []"
    by blast
  from first have run: "sends_to 9 (snd (run [Connect 9, PutCanvas 7 (Doc doc_v1) 5000] server_doc))
     = [SceneUpdate (Doc doc_abc), SceneUpdate (Doc doc_v1)]"
    by (simp only: rest rd)
  from connection_greeting [of 9 server_nofile "Doc doc_abc" "[]" "[]" 1] absent
  have dflt: "snd (on_connection 9 server_nofile) = [WsSend 9 (SceneUpdate (Doc DEFAULT_CANVAS))]"
    by blast
  from hold greet run none dflt show ?thesis by blast
qed

section \<open>Export relay\<close>

lemma replies_to_append: "replies_to r (xs @ ys) = replies_to r xs @ replies_to r ys"
  by (simp add: replies_to_def)

lemma replies_to_broadcast: "replies_to r (broadcast m ex cs) = []"
  by (induction cs) (simp_all add: replies_to_def)

lemma replies_to_simps:
  "replies_to r [] = []"
  "replies_to r (HttpReply q a # out) = (if q = r then a # replies_to r out else replies_to r out)"
  "replies_to r (WsSend w m # out) = replies_to r out"
  "replies_to r (FileWrite d # out) = replies_to r out"
  by (simp_all add: replies_to_def)

lemma get_export_busy:
  "pendingExportResolve s = Some r \<Longrightarrow> get_export req s = (s, [HttpReply req Conflict409])"
  by (simp add: get_export_def)

lemma get_export_idle:
  "pendingExportResolve s = None \<Longrightarrow>
     get_export req s =
       (s\<lparr>timers := insert req (timers s), pendingExportResolve := Some req\<rparr>,
        broadcast ExportRequest None (clients s))"
  by (simp add: get_export_def)

lemma post_export_pending:
  "pendingExportResolve s = Some r \<Longrightarrow>
     post_export p body s =
       (s\<lparr>timers := timers s - {r}, pendingExportResolve := None\<rparr>,
        [HttpReply r (Png body), HttpReply p OkJson])"
  by (simp add: post_export_def)

lemma post_export_idle:
  "pendingExportResolve s = None \<Longrightarrow> post_export p body s = (s, [HttpReply p BadRequest400])"
  by (simp add: post_export_def)

lemma timer_fire_pending:
  "pendingExportResolve s = Some q \<Longrightarrow> r \<in> timers s \<Longrightarrow>
     timer_fire r s =
       (s\<lparr>timers := timers s - {r}, pendingExportResolve := None\<rparr>, [HttpReply r Timeout504])"
  by (simp add: timer_fire_def Let_def)

lemma timer_fire_cleared: "r \<notin> timers s \<Longrightarrow> timer_fire r s = (s, [])"
  by (simp add: timer_fire_def)

lemma slot_inv_step: "slot_inv s \<Longrightarrow> slot_inv (fst (step e s))"
  by (cases e)
     (auto simp add: slot_inv_def on_connection_def on_close_def set_readyState_def on_message_def
        get_health_def get_canvas_def put_canvas_def get_export_def post_export_def timer_fire_def
        watcher_change_def external_write_def writeCanvas_def Let_def
        split: option.splits message.splits)

lemma slot_inv_startup: "slot_inv (fst (startup f))"
  by (cases f) (simp_all add: startup_def slot_inv_def)

lemma step_not_waiting:
  assumes "slot_inv s" "pendingExportResolve s \<noteq> Some r" "event_req e \<noteq> Some r"
  shows "pendingExportResolve (fst (step e s)) \<noteq> Some r \<and> replies_to r (snd (step e s)) = []"
  using assms
  by (cases e)
     (auto simp add: slot_inv_def event_req_def on_connection_def on_close_def set_readyState_def
        on_message_def get_health_def get_canvas_def put_canvas_def get_export_def post_export_def
        timer_fire_def watcher_change_def external_write_def writeCanvas_def Let_def
        replies_to_simps replies_to_append replies_to_broadcast
        split: option.splits message.splits)

lemma step_waiting:
  assumes "slot_inv s" "pendingExportResolve s = Some r" "event_req e \<noteq> Some r"
  shows "(pendingExportResolve (fst (step e s)) = Some r \<and> replies_to r (snd (step e s)) = []
            \<and> e \<noteq> TimerFire r \<and> (\<forall>p b. e \<noteq> PostExport p b))
         \<or> (pendingExportResolve (fst (step e s)) = None
            \<and> ((\<exists>p b. e = PostExport p b \<and> replies_to r (snd (step e s)) = [Png b])
               \<or> (e = TimerFire r \<and> replies_to r (snd (step e s)) = [Timeout504])))"
  using assms
  by (cases e)
     (auto simp add: slot_inv_def event_req_def on_connection_def on_close_def set_readyState_def
        on_message_def get_health_def get_canvas_def put_canvas_def get_export_def post_export_def
        timer_fire_def watcher_change_def external_write_def writeCanvas_def Let_def
        replies_to_simps replies_to_append replies_to_broadcast
        split: option.splits message.splits)

lemma run_not_waiting:
  "slot_inv s \<Longrightarrow> pendingExportResolve s \<noteq> Some r \<Longrightarrow> Some r \<notin> event_req ` set evs \<Longrightarrow>
     replies_to r (snd (run evs s)) = []"
proof (induction evs arbitrary: s)
  case Nil
  then show ?case by (simp add: replies_to_simps)
next
  case (Cons e es)
  from Cons.prems have er: "event_req e \<noteq> Some r" by auto
  from step_not_waiting [OF Cons.prems(1,2) er]
  have a: "pendingExportResolve (fst (step e s)) \<noteq> Some r" and b: "replies_to r (snd (step e s)) = []"
    by simp_all
  have "replies_to r (snd (run es (fst (step e s)))) = []"
    using Cons.prems a by (intro Cons.IH slot_inv_step) auto
  with b show ?case by (simp only: run_Cons snd_conv replies_to_append) simp
qed

lemma run_waiting:
  "slot_inv s \<Longrightarrow> pendingExportResolve s = Some r \<Longrightarrow> Some r \<notin> event_req ` set evs \<Longrightarrow>
     replies_to r (snd (run evs s)) = []
     \<or> (\<exists>b. replies_to r (snd (run evs s)) = [Png b])
     \<or> replies_to r (snd (run evs s)) = [Timeout504]"
proof (induction evs arbitrary: s)
  case Nil
  then show ?case by (simp add: replies_to_simps)
next
  case (Cons e es)
  from Cons.prems have er: "event_req e \<noteq> Some r" and rest: "Some r \<notin> event_req ` set es" by auto
  have inv': "slot_inv (fst (step e s))" using Cons.prems(1) by (rule slot_inv_step)
  from step_waiting [OF Cons.prems(1,2) er]
  consider
    (still) "pendingExportResolve (fst (step e s)) = Some r" "replies_to r (snd (step e s)) = []"
  | (resolved) "pendingExportResolve (fst (step e s)) = None"
       "(\<exists>b. replies_to r (snd (step e s)) = [Png b]) \<or> replies_to r (snd (step e s)) = [Timeout504]"
    by (elim disjE conjE exE) auto
  then show ?case
  proof cases
    case still
    from Cons.IH [OF inv' still(1) rest] still(2) show ?thesis
      by (simp only: run_Cons snd_conv replies_to_append) simp
  next
    case resolved
    then have "pendingExportResolve (fst (step e s)) \<noteq> Some r" by simp
    from run_not_waiting [OF inv' this rest] resolved(2) show ?thesis
      by (simp only: run_Cons snd_conv replies_to_append) auto
  qed
qed


lemma run_resolves:
  "slot_inv s \<Longrightarrow> pendingExportResolve s = Some r \<Longrightarrow> Some r \<notin> event_req ` set evs \<Longrightarrow>
     TimerFire r \<in> set evs \<or> (\<exists>p b. PostExport p b \<in> set evs) \<Longrightarrow>
     replies_to r (snd (run evs s)) \<noteq> []"
proof (induction evs arbitrary: s)
  case Nil
  then show ?case by simp
next
  case (Cons e es)
  from Cons.prems have er: "event_req e \<noteq> Some r" and rest: "Some r \<notin> event_req ` set es" by auto
  have inv': "slot_inv (fst (step e s))" using Cons.prems(1) by (rule slot_inv_step)
  from step_waiting [OF Cons.prems(1,2) er]
  consider
    (still) "pendingExportResolve (fst (step e s)) = Some r" "e \<noteq> TimerFire r" "\<forall>p b. e \<noteq> PostExport p b"
  | (resolved) "replies_to r (snd (step e s)) \<noteq> []"
    by (elim disjE conjE exE) auto
  then show ?case
  proof cases
    case still
    with Cons.prems(4) have "TimerFire r \<in> set es \<or> (\<exists>p b. PostExport p b \<in> set es)"
      by auto
    from Cons.IH [OF inv' still(1) rest this] show ?thesis
      by (simp only: run_Cons snd_conv replies_to_append) simp
  next
    case resolved
    then show ?thesis
      by (simp only: run_Cons snd_conv replies_to_append) simp
  qed
qed

lemma slot_inv_run: "slot_inv s \<Longrightarrow> slot_inv (fst (run evs s))"
proof (induction evs arbitrary: s)
  case Nil
  then show ?case by simp
next
  case (Cons e es)
  then show ?case by (simp only: run_Cons fst_conv) (simp add: slot_inv_step)
qed

lemma late_fulfills_rejected:
  "pendingExportResolve s = None \<Longrightarrow>
     run (map (\<lambda>pb. PostExport (fst pb) (snd pb)) ps) s =
       (s, map (\<lambda>pb. HttpReply (fst pb) BadRequest400) ps)"
  by (induction ps) (simp_all add: post_export_idle)

text \<open>
  Claim C3. The export slot holds at most one waiting request, and with it exactly that
  request's timer, in every state the relay reaches. A \<open>GET /api/export-png\<close> that
  arrives while a request waits is answered 409 at once and leaves the relay's state as
  it was, slot and timers included, so whatever happens afterwards happens as if the
  second request had never been made. Of two requests made in a row on an idle relay
  the first takes the slot and the second is answered 409.
\<close>

theorem export_single_flight:
  "(pendingExportResolve s = Some r \<longrightarrow>
      get_export req s = (s, [HttpReply req Conflict409])
      \<and> run evs (fst (get_export req s)) = run evs s)
   \<and> (pendingExportResolve s = None \<longrightarrow>
      run [GetExport r1, GetExport r2] s =
        (s\<lparr>timers := insert r1 (timers s), pendingExportResolve := Some r1\<rparr>,
         broadcast ExportRequest None (clients s) @ [HttpReply r2 Conflict409]))
   \<and> slot_inv (fst (startup f))
   \<and> (slot_inv s \<longrightarrow> slot_inv (fst (run evs s)))"
proof (intro conjI impI)
  assume p: "pendingExportResolve s = Some r"
  show "get_export req s = (s, [HttpReply req Conflict409])"
    using p by (rule get_export_busy)
  then show "run evs (fst (get_export req s)) = run evs s"
    by simp
next
  assume "pendingExportResolve s = None"
  then show "run [GetExport r1, GetExport r2] s =
        (s\<lparr>timers := insert r1 (timers s), pendingExportResolve := Some r1\<rparr>,
         broadcast ExportRequest None (clients s) @ [HttpReply r2 Conflict409])"
    by (simp add: get_export_def)
next
  show "slot_inv (fst (startup f))" by (rule slot_inv_startup)
next
  assume "slot_inv s"
  then show "slot_inv (fst (run evs s))" by (rule slot_inv_run)
qed

theorem export_single_flight_witness:
  "pendingExportResolve server_waiting = Some 4
   \<and> get_export 5 server_waiting = (server_waiting, [HttpReply 5 Conflict409])
   \<and> run [PostExport 6 [137, 80]] (fst (get_export 5 server_waiting))
       = run [PostExport 6 [137, 80]] server_waiting
   \<and> pendingExportResolve server_abc = None
   \<and> snd (run [GetExport 4, GetExport 5] server_abc)
       = [WsSend 1 ExportRequest, WsSend 3 ExportRequest, HttpReply 5 Conflict409]
   \<and> slot_inv server_abc
   \<and> slot_inv (fst (run [GetExport 4, GetExport 5] server_abc))"
proof -
  have w: "pendingExportResolve server_waiting = Some 4"
    by (simp add: server_waiting_def)
  have i: "pendingExportResolve server_abc = None"
    by (simp add: server_abc_def)
  have inv: "slot_inv server_abc"
    by (simp add: slot_inv_def server_abc_def)
  from export_single_flight [of server_waiting 4 5 "[PostExport 6 [137, 80]]"] w
  have 1: "get_export 5 server_waiting = (server_waiting, [HttpReply 5 Conflict409])"
    and 2: "run [PostExport 6 [137, 80]] (fst (get_export 5 server_waiting))
       = run [PostExport 6 [137, 80]] server_waiting"
    by blast+
  from export_single_flight [of server_abc 0 0 "[GetExport 4, GetExport 5]" 4 5] i inv
  have 3: "run [GetExport 4, GetExport 5] server_abc =
        (server_abc\<lparr>timers := insert 4 (timers server_abc), pendingExportResolve := Some 4\<rparr>,
         broadcast ExportRequest None (clients server_abc) @ [HttpReply 5 Conflict409])"
    and 4: "slot_inv (fst (run [GetExport 4, GetExport 5] server_abc))"
    by blast+
  have 5: "broadcast ExportRequest None (clients server_abc)
      = [WsSend 1 ExportRequest, WsSend 3 ExportRequest]"
    by (simp add: server_abc_def three_clients_def)
  from 3 have 6: "snd (run [GetExport 4, GetExport 5] server_abc)
       = [WsSend 1 ExportRequest, WsSend 3 ExportRequest, HttpReply 5 Conflict409]"
    by (simp only: 5 snd_conv append.simps)
  from w i inv 1 2 4 6 show ?thesis by blast
qed

text \<open>
  Claim C4 says that after a timeout any later fulfill is rejected and reaches no caller.
  A post carries no mark of the request it answers: once a new request has taken the
  slot, a post that comes late for the old one is accepted, and its bytes go to the new
  request. Here request 4 times out, request 8 takes the slot, and the post of request 6
  is acknowledged and answers request 8.
\<close>

theorem late_fulfill_counterexample:
  "slot_inv server_waiting \<and> pendingExportResolve server_waiting = Some 4
   \<and> snd (run [TimerFire 4, GetExport 8, PostExport 6 [137, 80]] server_waiting)
       = [HttpReply 4 Timeout504, WsSend 1 ExportRequest, WsSend 3 ExportRequest,
          HttpReply 8 (Png [137, 80]), HttpReply 6 OkJson]"
  by (simp add: slot_inv_def server_waiting_def server_abc_def three_clients_def
        timer_fire_def get_export_def post_export_def Let_def)

text \<open>
  Claim C4, amended. Let request \<open>r\<close> wait in the slot, its timer armed. A
  \<open>POST /api/export-png\<close> clears the timer, empties the slot, sends exactly the posted
  bytes on \<open>r\<close>'s response and acknowledges the poster; the cleared timer can no longer
  do anything. If instead the timer fires, \<open>r\<close> is answered 504 and the slot is empty: a
  new request then takes the slot. Posts that arrive while the slot is empty are each
  answered 400, change nothing and reach no request; a post that arrives after a new
  request has taken the slot is accepted and answers that new request. In every run
  \<open>r\<close> is answered at most once, by the image or by the timeout, and it is answered as
  soon as its timer fires or an image is posted.
\<close>

theorem export_resolved_once:
  assumes "slot_inv s" and "pendingExportResolve s = Some r"
  shows "post_export p body s =
           (s\<lparr>timers := {}, pendingExportResolve := None\<rparr>,
            [HttpReply r (Png body), HttpReply p OkJson])
    \<and> timer_fire r (fst (post_export p body s)) = (fst (post_export p body s), [])
    \<and> timer_fire r s =
           (s\<lparr>timers := {}, pendingExportResolve := None\<rparr>, [HttpReply r Timeout504])
    \<and> get_export r' (fst (timer_fire r s)) =
           (s\<lparr>timers := {r'}, pendingExportResolve := Some r'\<rparr>,
            broadcast ExportRequest None (clients s))
    \<and> run (map (\<lambda>pb. PostExport (fst pb) (snd pb)) ps) (fst (timer_fire r s)) =
           (fst (timer_fire r s), map (\<lambda>pb. HttpReply (fst pb) BadRequest400) ps)
    \<and> (Some r \<notin> event_req ` set evs \<longrightarrow>
          replies_to r (snd (run evs s)) = []
          \<or> (\<exists>b. replies_to r (snd (run evs s)) = [Png b])
          \<or> replies_to r (snd (run evs s)) = [Timeout504])
    \<and> (Some r \<notin> event_req ` set evs
          \<and> (TimerFire r \<in> set evs \<or> (\<exists>q b. PostExport q b \<in> set evs)) \<longrightarrow>
          replies_to r (snd (run evs s)) \<noteq> [])
    \<and> post_export p body (fst (get_export r' (fst (timer_fire r s)))) =
           (s\<lparr>timers := {}, pendingExportResolve := None\<rparr>,
            [HttpReply r' (Png body), HttpReply p OkJson])"
proof -
  from assms have t: "timers s = {r}" by (simp add: slot_inv_def)
  have post: "post_export p body s =
           (s\<lparr>timers := {}, pendingExportResolve := None\<rparr>,
            [HttpReply r (Png body), HttpReply p OkJson])"
    using assms(2) t by (simp add: post_export_pending)
  have cleared: "timer_fire r (fst (post_export p body s)) = (fst (post_export p body s), [])"
    by (simp add: post timer_fire_cleared)
  have fire: "timer_fire r s =
           (s\<lparr>timers := {}, pendingExportResolve := None\<rparr>, [HttpReply r Timeout504])"
    using assms(2) t by (simp add: timer_fire_pending)
  have again: "get_export r' (fst (timer_fire r s)) =
           (s\<lparr>timers := {r'}, pendingExportResolve := Some r'\<rparr>,
            broadcast ExportRequest None (clients s))"
    by (simp add: fire get_export_idle)
  have late: "run (map (\<lambda>pb. PostExport (fst pb) (snd pb)) ps) (fst (timer_fire r s)) =
           (fst (timer_fire r s), map (\<lambda>pb. HttpReply (fst pb) BadRequest400) ps)"
    by (rule late_fulfills_rejected) (simp add: fire)
  have once: "Some r \<notin> event_req ` set evs \<longrightarrow>
          replies_to r (snd (run evs s)) = []
          \<or> (\<exists>b. replies_to r (snd (run evs s)) = [Png b])
          \<or> replies_to r (snd (run evs s)) = [Timeout504]"
    using run_waiting [OF assms] by blast
  have live: "Some r \<notin> event_req ` set evs
          \<and> (TimerFire r \<in> set evs \<or> (\<exists>q b. PostExport q b \<in> set evs)) \<longrightarrow>
          replies_to r (snd (run evs s)) \<noteq> []"
    using run_resolves [OF assms] by blast
  have served: "post_export p body (fst (get_export r' (fst (timer_fire r s)))) =
           (s\<lparr>timers := {}, pendingExportResolve := None\<rparr>,
            [HttpReply r' (Png body), HttpReply p OkJson])"
    by (simp add: again post_export_pending)
  from post cleared fire again late once live served show ?thesis by blast
qed


theorem export_resolved_once_witness:
  "slot_inv server_waiting \<and> pendingExportResolve server_waiting = Some 4
   \<and> snd (post_export 6 [137, 80] server_waiting) = [HttpReply 4 (Png [137, 80]), HttpReply 6 OkJson]
   \<and> snd (timer_fire 4 (fst (post_export 6 [137, 80] server_waiting))) = []
   \<and> snd (timer_fire 4 server_waiting) = [HttpReply 4 Timeout504]
   \<and> pendingExportResolve (fst (get_export 8 (fst (timer_fire 4 server_waiting)))) = Some 8
   \<and> snd (run (map (\<lambda>pb. PostExport (fst pb) (snd pb)) [(6, [137, 80])]) (fst (timer_fire 4 server_waiting)))
       = [HttpReply 6 BadRequest400]
   \<and> replies_to 4 (snd (run [TimerFire 4, PostExport 6 [137, 80], GetExport 8] server_waiting)) = [Timeout504]
   \<and> replies_to 4 (snd (run [TimerFire 4, PostExport 6 [137, 80], GetExport 8] server_waiting)) \<noteq> []
   \<and> snd (post_export 6 [137, 80] (fst (get_export 8 (fst (timer_fire 4 server_waiting)))))
       = [HttpReply 8 (Png [137, 80]), HttpReply 6 OkJson]"
proof -
  have inv: "slot_inv server_waiting"
    by (simp add: slot_inv_def server_waiting_def)
  have w: "pendingExportResolve server_waiting = Some 4"
    by (simp add: server_waiting_def)
  note th = export_resolved_once [OF inv w, of 6 "[137, 80]" 8 "[(6, [137, 80])]"
      "[TimerFire 4, PostExport 6 [137, 80], GetExport 8]"]
  note c1 = th [THEN conjunct1]
  note c2 = th [THEN conjunct2, THEN conjunct1]
  note c3 = th [THEN conjunct2, THEN conjunct2, THEN conjunct1]
  note c4 = th [THEN conjunct2, THEN conjunct2, THEN conjunct2, THEN conjunct1]
  note c5 = th [THEN conjunct2, THEN conjunct2, THEN conjunct2, THEN conjunct2, THEN conjunct1]
  have 1: "snd (post_export 6 [137, 80] server_waiting) = [HttpReply 4 (Png [137, 80]), HttpReply 6 OkJson]"
    by (simp only: c1 snd_conv)
  have 2: "snd (timer_fire 4 (fst (post_export 6 [137, 80] server_waiting))) = []"
    by (simp only: c2 snd_conv)
  have 3: "snd (timer_fire 4 server_waiting) = [HttpReply 4 Timeout504]"
    by (simp only: c3 snd_conv)
  have 4: "pendingExportResolve (fst (get_export 8 (fst (timer_fire 4 server_waiting)))) = Some 8"
    by (simp only: c4 fst_conv) simp
  have 5: "snd (run (map (\<lambda>pb. PostExport (fst pb) (snd pb)) [(6, [137, 80])]) (fst (timer_fire 4 server_waiting)))
       = [HttpReply 6 BadRequest400]"
    by (simp only: c5 snd_conv) simp
  have 6: "replies_to 4 (snd (run [TimerFire 4, PostExport 6 [137, 80], GetExport 8] server_waiting)) = [Timeout504]"
    by (simp add: server_waiting_def server_abc_def timer_fire_def post_export_def get_export_def
          replies_to_simps replies_to_append replies_to_broadcast Let_def)
  have fresh: "Some 4 \<notin> event_req ` set [TimerFire 4, PostExport 6 [137, 80], GetExport 8]"
    by (simp add: event_req_def)
  have fires: "TimerFire 4 \<in> set [TimerFire 4, PostExport 6 [137, 80], GetExport 8]"
    by simp
  from th fresh fires
  have 7: "replies_to 4 (snd (run [TimerFire 4, PostExport 6 [137, 80], GetExport 8] server_waiting)) \<noteq> []"
    by blast
  note c8 = th [THEN conjunct2, THEN conjunct2, THEN conjunct2, THEN conjunct2, THEN conjunct2,
      THEN conjunct2, THEN conjunct2]
  have 8: "snd (post_export 6 [137, 80] (fst (get_export 8 (fst (timer_fire 4 server_waiting)))))
       = [HttpReply 8 (Png [137, 80]), HttpReply 6 OkJson]"
    by (simp only: c8 snd_conv)
  from inv w 1 2 3 4 5 6 7 8 show ?thesis by blast
qed


section \<open>Loading the canvas\<close>

text \<open>
  Claim C8 says that loading replaces an absent, unparseable or schema-mismatched file
  by the default document and returns a document. The code does not: a file that
  parses is returned as it is, whatever its \<open>version\<close> (here 1, where the default has 2)
  and even when it is no document at all (here \<open>null\<close>), and reading an absent file
  returns the default but leaves the file absent.
\<close>

theorem load_counterexample:
  "version_doc doc_v1 \<noteq> version_doc DEFAULT_CANVAS
   \<and> readCanvas (Holds (Doc doc_v1)) = Doc doc_v1
   \<and> readCanvas (Holds (Doc doc_v1)) \<noteq> Doc DEFAULT_CANVAS
   \<and> readCanvas (Holds Null) = Null
   \<and> get_canvas 7 server_nofile = (server_nofile, [HttpReply 7 (CanvasJson (Doc DEFAULT_CANVAS))])
   \<and> canvas_file (fst (get_canvas 7 server_nofile)) \<noteq> Holds (Doc DEFAULT_CANVAS)"
  by (simp add: doc_v1_def DEFAULT_CANVAS_def readCanvas_def get_canvas_def server_nofile_def)

text \<open>
  Claim C8, amended. \<open>readCanvas\<close> never writes, and returns: the value the file parses
  to, as it is, when the file parses (a document whatever its schema version, and just
  as well \<open>null\<close>, a number or an array); the default document when the file is absent
  or does not parse. Every handler that reads the canvas leaves the file as it is. The
  file is initialised with the default document at startup only, and only when it is
  absent.
\<close>

theorem load_parsed_or_default:
  "readCanvas (Holds v) = v
   \<and> readCanvas (Holds (Doc d)) = Doc d
   \<and> readCanvas (Holds Null) = Null
   \<and> readCanvas (Holds (OtherJson txt)) = OtherJson txt
   \<and> readCanvas (Unparseable raw) = Doc DEFAULT_CANVAS
   \<and> readCanvas Absent = Doc DEFAULT_CANVAS
   \<and> get_canvas req s = (s, [HttpReply req (CanvasJson (readCanvas (canvas_file s)))])
   \<and> canvas_file (fst (on_connection ws s)) = canvas_file s
   \<and> canvas_file (fst (watcher_change now s)) = canvas_file s
   \<and> startup Absent =
       (\<lparr>canvas_file = Holds (Doc DEFAULT_CANVAS), lastWriteFromClient = 0,
         pendingExportResolve = None, timers = {}, clients = []\<rparr>,
        [FileWrite (Doc DEFAULT_CANVAS)])
   \<and> startup (Unparseable raw) =
       (\<lparr>canvas_file = Unparseable raw, lastWriteFromClient = 0, pendingExportResolve = None,
         timers = {}, clients = []\<rparr>, [])
   \<and> startup (Holds v) =
       (\<lparr>canvas_file = Holds v, lastWriteFromClient = 0, pendingExportResolve = None,
         timers = {}, clients = []\<rparr>, [])"
  by (simp add: readCanvas_def get_canvas_def on_connection_def watcher_change_def startup_def Let_def)

theorem load_parsed_or_default_witness:
  "readCanvas (Holds (Doc doc_v1)) = Doc doc_v1
   \<and> readCanvas (Holds (OtherJson ''42'')) = OtherJson ''42''
   \<and> readCanvas (Unparseable ''{'') = Doc DEFAULT_CANVAS
   \<and> get_canvas 7 server_nofile = (server_nofile, [HttpReply 7 (CanvasJson (Doc DEFAULT_CANVAS))])
   \<and> get_canvas 7 server_doc = (server_doc, [HttpReply 7 (CanvasJson (Doc doc_abc))])
   \<and> canvas_file (fst (startup Absent)) = Holds (Doc DEFAULT_CANVAS)
   \<and> canvas_file (fst (startup (Holds (Doc doc_v1)))) = Holds (Doc doc_v1)"
  using load_parsed_or_default [of "Doc doc_v1" doc_v1 "''42''" "''{''" 7 server_nofile 0 0]
    load_parsed_or_default [of "Doc doc_v1" doc_v1 "''42''" "''{''" 7 server_doc 0 0]
  by (simp add: server_nofile_def server_doc_def server_abc_def readCanvas_def)

section \<open>Update and delete from the command line\<close>

lemma findIndex_None: "(findIndex P xs = None) = (\<forall>x \<in> set xs. \<not> P x)"
  by (induction xs) (auto split: option.splits)

lemma findIndex_Some: "findIndex P xs = Some i \<Longrightarrow> i < length xs \<and> P (xs ! i)"
proof (induction xs arbitrary: i)
  case Nil
  then show ?case by simp
next
  case (Cons x xs)
  then show ?case by (auto split: if_splits option.splits)
qed

lemma delete_loop_unknown:
  "ids \<inter> id_el ` set els = {} \<Longrightarrow> delete_loop ids now els cnt = (els, cnt)"
  by (induction els arbitrary: cnt) auto

lemma digits_zero: "digits 0 = ''0''"
  by code_simp


text \<open>
  Claim C9 says that a delete of an unknown identifier is rejected and writes nothing.
  The code does not reject it: \<open>delete zzz\<close> on a canvas without such an element
  reports \<open>Deleted 0 element(s)\<close> and writes the canvas back.
\<close>

theorem delete_unknown_counterexample:
  "''zzz'' \<notin> id_el ` set [el_a, el_b, el_c]
   \<and> elements doc_abc = Some [el_a, el_b, el_c]
   \<and> cmd_delete [''zzz''] doc_abc 99 = Wrote doc_abc ''Deleted 0 element(s)''"
  by (simp add: cmd_delete_def doc_abc_def el_a_def el_b_def el_c_def digits_zero)

text \<open>
  Claim C9, amended. An \<open>update\<close> whose identifier no element of the canvas has ends
  with an error before any write (\<open>Element 'id' not found\<close> when the identifier and
  the JSON are well formed). A \<open>delete\<close> none of whose identifiers is on the canvas
  is not rejected: it reports zero deletions and writes the canvas back unchanged.
\<close>

theorem update_unknown_rejected:
  "(elements canvas = Some els \<and> i \<notin> id_el ` set els \<and> i \<noteq> [] \<longrightarrow>
      cmd_update (i # rest) (Some u) canvas rnd now
        = Failed (''Element '' @ [CHR 0x27] @ i @ [CHR 0x27] @ '' not found''))
   \<and> (elements canvas = Some els \<and> i \<notin> id_el ` set els \<longrightarrow>
      (\<exists>msg. cmd_update (i # rest) upd canvas rnd now = Failed msg))
   \<and> (elements canvas = Some els \<and> args \<noteq> [] \<and> set args \<inter> id_el ` set els = {} \<longrightarrow>
      cmd_delete args canvas now = Wrote canvas ''Deleted 0 element(s)'')"
proof (intro conjI impI)
  assume a: "elements canvas = Some els \<and> i \<notin> id_el ` set els \<and> i \<noteq> []"
  then have "findIndex (\<lambda>e. id_el e = i) els = None"
    by (auto simp add: findIndex_None)
  with a show "cmd_update (i # rest) (Some u) canvas rnd now
        = Failed (''Element '' @ [CHR 0x27] @ i @ [CHR 0x27] @ '' not found'')"
    by (simp add: cmd_update_def)
next
  assume a: "elements canvas = Some els \<and> i \<notin> id_el ` set els"
  then have "findIndex (\<lambda>e. id_el e = i) els = None"
    by (auto simp add: findIndex_None)
  with a show "\<exists>msg. cmd_update (i # rest) upd canvas rnd now = Failed msg"
    by (simp add: cmd_update_def split: option.splits)
next
  assume a: "elements canvas = Some els \<and> args \<noteq> [] \<and> set args \<inter> id_el ` set els = {}"
  then have "delete_loop (set args) now els 0 = (els, 0)"
    by (simp add: delete_loop_unknown)
  moreover from a have "canvas\<lparr>elements := Some els\<rparr> = canvas"
    by simp
  ultimately show "cmd_delete args canvas now = Wrote canvas ''Deleted 0 element(s)''"
    using a by (simp add: cmd_delete_def digits_zero)
qed

theorem update_unknown_rejected_witness:
  "elements doc_abc = Some [el_a, el_b, el_c] \<and> ''zzz'' \<notin> id_el ` set [el_a, el_b, el_c]
   \<and> cmd_update [''zzz'', ''{}''] (Some \<lparr>p_id = None, p_isDeleted = None, p_props = []\<rparr>) doc_abc 5 99
       = Failed ''Element 'zzz' not found''
   \<and> cmd_delete [''zzz'', ''yyy''] doc_abc 99 = Wrote doc_abc ''Deleted 0 element(s)''"
proof -
  have e: "elements doc_abc = Some [el_a, el_b, el_c]"
    by (simp add: doc_abc_def)
  have n: "''zzz'' \<notin> id_el ` set [el_a, el_b, el_c]" "''zzz'' \<noteq> []"
    by (simp_all add: el_a_def el_b_def el_c_def)
  have d: "[''zzz'', ''yyy''] \<noteq> []" "set [''zzz'', ''yyy''] \<inter> id_el ` set [el_a, el_b, el_c] = {}"
    by (simp_all add: el_a_def el_b_def el_c_def)
  note th = update_unknown_rejected [of doc_abc "[el_a, el_b, el_c]" "''zzz''" "[''{}'']"
      "\<lparr>p_id = None, p_isDeleted = None, p_props = []\<rparr>" 5 99 None "[''zzz'', ''yyy'']"]
  from th e n have 1: "cmd_update [''zzz'', ''{}''] (Some \<lparr>p_id = None, p_isDeleted = None, p_props = []\<rparr>) doc_abc 5 99
       = Failed (''Element '' @ [CHR 0x27] @ ''zzz'' @ [CHR 0x27] @ '' not found'')"
    by blast
  from th e d have 2: "cmd_delete [''zzz'', ''yyy''] doc_abc 99 = Wrote doc_abc ''Deleted 0 element(s)''"
    by blast
  from 1 2 e n show ?thesis by simp
qed



end
